(* ===== verification/Prelude.thy ===== *)
theory Prelude
  imports Complex_Main "HOL-Library.Word"
begin

text \<open>
  Shared vocabulary of the development: the C++ integer types the kernel of
  \<^verbatim>\<open>DiagReciprocal.hpp\<close> computes with, the triangular numbers that count the
  packed upper-triangular stream, and the conversion facts between machine
  words and mathematical numbers that the kernel proofs use.  The facts are
  collected in the named theorem collection \<open>width_simps\<close>, so that a
  component proof says \<open>simp add: width_simps\<close> instead of repeating them.
\<close>

named_theorems width_simps "conversions between small naturals and the kernel's machine words"

type_synonym int32 = "32 word"
  \<comment> \<open>C++ \<open>int\<close> on the device: 32-bit two's complement\<close>
type_synonym size_t = "64 word"
  \<comment> \<open>C++ \<open>size_t\<close> on the device: 64-bit unsigned\<close>

definition tri :: "nat \<Rightarrow> nat" where
  "tri n = n * (n + 1) div 2"

subsection \<open>Triangular numbers\<close>

lemma tri_0 [simp]: "tri 0 = 0"
  by (simp add: tri_def)

lemma tri_Suc [simp]: "tri (Suc n) = tri n + Suc n"
  by (induction n) (simp_all add: tri_def)

lemma tri_mono: "m \<le> n \<Longrightarrow> tri m \<le> tri n"
  by (induction n) (auto simp: le_Suc_eq)

lemma tri_strict_mono: "m < n \<Longrightarrow> tri m < tri n"
  by (induction n) (auto simp: less_Suc_eq)

lemma tri_65535: "tri 65535 < 2 ^ 31"
  by (simp add: tri_def)

lemma tri_bound: "n \<le> 65535 \<Longrightarrow> tri n < 2 ^ 31"
  using tri_mono [of n 65535] tri_65535 by linarith

subsection \<open>Iteration\<close>

lemma funpow_add_apply: "(f ^^ (a + b)) x = (f ^^ b) ((f ^^ a) x)"
  by (simp add: funpow_add add.commute [of a b])

lemma no_descending_chain: "(\<forall>k. g (Suc k) < (g k :: nat)) \<Longrightarrow> False"
proof -
  assume d: "\<forall>k. g (Suc k) < g k"
  have "\<forall>k. g k + k \<le> g 0"
  proof
    fix k show "g k + k \<le> g 0"
    proof (induction k)
      case 0
      show ?case by simp
    next
      case (Suc k)
      with d [rule_format, of k] show ?case by simp
    qed
  qed
  then have "g (Suc (g 0)) + Suc (g 0) \<le> g 0" by blast
  then show False by simp
qed

subsection \<open>Lists\<close>

lemma zip_take_length_left: "zip (take (length ys) xs) ys = zip xs ys"
proof -
  have "zip xs ys = take (length ys) (zip xs ys)" by simp
  also have "\<dots> = zip (take (length ys) xs) ys" by (simp add: take_zip)
  finally show ?thesis by simp
qed


lemma zip_take_right: "length ps \<le> k \<Longrightarrow> zip ps (take k xs) = zip ps xs"
proof (induction ps arbitrary: k xs)
  case Nil
  then show ?case by simp
next
  case (Cons p ps)
  then show ?case by (cases k; cases xs) simp_all
qed

lemma zip_take_Suc:
  assumes "j < length ps" "j < length xs"
  shows "zip ps (take (Suc j) xs) = zip ps (take j xs) @ [(ps ! j, xs ! j)]"
proof -
  have t: "take (Suc j) xs = take j xs @ [xs ! j]" using assms by (simp add: take_Suc_conv_app_nth)
  have "zip ps (take j xs) = take j (zip ps (take j xs))" by simp
  also have "\<dots> = zip (take j ps) (take j xs)" by (simp add: take_zip)
  finally have z1: "zip (take j ps) (take j xs) = zip ps (take j xs)" by simp
  have z2: "zip (drop j ps) [xs ! j] = [(ps ! j, xs ! j)]"
    using assms by (simp add: Cons_nth_drop_Suc [symmetric])
  show ?thesis
    using assms by (simp add: t zip_append2 z1 z2 min_def)
qed

lemma zip_as_nth: "length ps \<le> length xs \<Longrightarrow> zip ps xs = map (\<lambda>j. (ps ! j, xs ! j)) [0..<length ps]"
  by (rule nth_equalityI) simp_all

subsection \<open>Machine words that hold small naturals\<close>

lemma sint_of_nat_small [width_simps]:
  "n < 2 ^ 31 \<Longrightarrow> sint (word_of_nat n :: int32) = int n"
  by (simp add: signed_of_nat signed_take_bit_int_eq_self)

lemma of_nat_int32_inj [width_simps]:
  "a < 2 ^ 31 \<Longrightarrow> b < 2 ^ 31 \<Longrightarrow> ((word_of_nat a :: int32) = word_of_nat b) = (a = b)"
  by (metis of_nat_eq_iff sint_of_nat_small)

lemma scast_of_nat_small [width_simps]:
  "c < 2 ^ 31 \<Longrightarrow> (scast (word_of_nat c :: int32) :: size_t) = word_of_nat c"
  by (simp add: scast_eq sint_of_nat_small)

lemma size_t_of_nat_eq [width_simps]:
  "c < 2 ^ 64 \<Longrightarrow> ((word_of_nat c :: size_t) = n) = (c = unat n)"
  by (simp add: word_unat_eq_iff unat_of_nat)

lemma int32_of_nat_sless [width_simps]:
  "a < 2 ^ 31 \<Longrightarrow> b < 2 ^ 31 \<Longrightarrow> ((word_of_nat a :: int32) <s word_of_nat b) = (a < b)"
  by (simp add: word_sless_alt sint_of_nat_small)

text \<open>
  Incrementing a signed counter that is below some other signed value cannot
  overflow: this is why the loop \<open>for (int i = 0; i < total_reads; i++)\<close>
  never wraps \<open>i\<close>, whatever \<open>total_reads\<close> is.
\<close>

lemma sint_incr:
  fixes i t :: int32
  assumes "i <s t"
  shows "sint (i + 1) = sint i + 1"
proof -
  from assms have lt: "sint i < sint t" by (simp add: word_sless_alt)
  have "sint t < 2 ^ 31" using sint_range_size [of t] by (simp add: word_size)
  moreover have "- (2 ^ 31) \<le> sint i" using sint_range_size [of i] by (simp add: word_size)
  ultimately show ?thesis using lt
    by (simp add: sint_word_add signed_take_bit_int_eq_self)
qed

lemma of_nat_Suc_int32: "(word_of_nat (Suc j) :: int32) = word_of_nat j + 1"
  by simp

end
