(* ===== verification/TriIndex.thy ===== *)
theory TriIndex
  imports Prelude
begin

text \<open>
  The position tracker of the kernel in \<^verbatim>\<open>DiagReciprocal.hpp\<close>: the two counters
  \<open>row\<close> and \<open>col\<close> that reconstruct the coordinates of the current element of
  the packed upper-triangular stream (lines 22--23 initialise them, lines 33--38
  advance them).  Here the counters are mathematical naturals; the kernel theory
  shows that the 32-bit counters of the code agree with them.

  The abstract specification is \<open>tri_positions\<close>: the row-major packing of an
  \<open>n \<times> n\<close> upper-triangular matrix, row \<open>r\<close> holding columns \<open>r..n\<close>.  The main
  lemma is that the tracker, started at \<open>(1, 1)\<close> and advanced \<open>tri n\<close> times,
  enumerates exactly that packing, and that its diagonal positions are the
  \<open>n\<close> positions \<open>(r, r)\<close> in row order.
\<close>

subsection \<open>The tracker\<close>

definition advance :: "nat \<Rightarrow> nat \<times> nat \<Rightarrow> nat \<times> nat" where
  "advance num_rows p =
     (case p of (row, col) \<Rightarrow>
        if col = num_rows then (row + 1, row + 1) else (row, col + 1))"

fun visit :: "nat \<Rightarrow> nat \<Rightarrow> nat \<times> nat \<Rightarrow> (nat \<times> nat) list" where
  "visit n 0 p = []"
| "visit n (Suc k) p = p # visit n k (advance n p)"

subsection \<open>The packed order\<close>

definition tri_row :: "nat \<Rightarrow> nat \<Rightarrow> (nat \<times> nat) list" where
  "tri_row n r = map (Pair r) [r..<Suc n]"

definition tri_positions :: "nat \<Rightarrow> (nat \<times> nat) list" where
  "tri_positions n = concat (map (tri_row n) [1..<Suc n])"

definition is_diag :: "nat \<times> nat \<Rightarrow> bool" where
  "is_diag p = (fst p = snd p)"

definition diag_index :: "nat \<Rightarrow> nat \<Rightarrow> nat" where
  "diag_index n r = tri n - tri (Suc n - r)"

subsection \<open>Runs of the tracker\<close>

lemma length_visit [simp]: "length (visit n k p) = k"
  by (induction k arbitrary: p) simp_all

lemma visit_add: "visit n (a + b) p = visit n a p @ visit n b ((advance n ^^ a) p)"
  by (induction a arbitrary: p) (simp_all add: funpow_swap1)

lemma visit_nth: "j < k \<Longrightarrow> visit n k p ! j = (advance n ^^ j) p"
proof (induction k arbitrary: j p)
  case 0
  then show ?case by simp
next
  case (Suc k)
  then show ?case
    by (cases j) (simp_all add: funpow_swap1)
qed

lemma advance_in_row: "col \<noteq> n \<Longrightarrow> advance n (row, col) = (row, Suc col)"
  by (simp add: advance_def)

lemma advance_row_end: "advance n (row, n) = (Suc row, Suc row)"
  by (simp add: advance_def)

text \<open>One row: from \<open>(r, c)\<close> the tracker walks to the end of row \<open>r\<close> and wraps.\<close>

lemma visit_row:
  "c \<le> n \<Longrightarrow> visit n (Suc n - c) (r, c) = map (Pair r) [c..<Suc n]
     \<and> (advance n ^^ (Suc n - c)) (r, c) = (Suc r, Suc r)"
proof (induction "n - c" arbitrary: c)
  case 0
  then have "c = n" by simp
  then show ?case by (simp add: advance_row_end)
next
  case (Suc m)
  then have c: "c < n" by simp
  have IH: "visit n (Suc n - Suc c) (r, Suc c) = map (Pair r) [Suc c..<Suc n]
      \<and> (advance n ^^ (Suc n - Suc c)) (r, Suc c) = (Suc r, Suc r)"
  proof (rule Suc.hyps(1))
    show "m = n - Suc c" using Suc.hyps(2) by arith
    show "Suc c \<le> n" using c by simp
  qed
  have k: "Suc n - c = Suc (Suc n - Suc c)" using c by simp
  have u: "[c..<Suc n] = c # [Suc c..<Suc n]" using c by (simp add: upt_rec)
  have adv: "advance n (r, c) = (r, Suc c)" using c by (simp add: advance_def)
  show ?case
    by (simp only: k visit.simps funpow_Suc_right o_apply adv u list.map IH)
qed

text \<open>All remaining rows: from \<open>(r, r)\<close> the tracker enumerates rows \<open>r..n\<close>.\<close>

lemma visit_rows:
  "r \<le> Suc n \<Longrightarrow> visit n (tri (Suc n - r)) (r, r) = concat (map (tri_row n) [r..<Suc n])
     \<and> (advance n ^^ tri (Suc n - r)) (r, r) = (Suc n, Suc n)"
proof (induction "Suc n - r" arbitrary: r)
  case 0
  then have "r = Suc n" by simp
  then show ?case by simp
next
  case (Suc m)
  then have r: "r \<le> n" by simp
  have IH: "visit n (tri (Suc n - Suc r)) (Suc r, Suc r)
        = concat (map (tri_row n) [Suc r..<Suc n])
      \<and> (advance n ^^ tri (Suc n - Suc r)) (Suc r, Suc r) = (Suc n, Suc n)"
  proof (rule Suc.hyps(1))
    show "m = Suc n - Suc r" using Suc.hyps(2) by arith
    show "Suc r \<le> Suc n" using r by simp
  qed
  have row: "visit n (Suc n - r) (r, r) = map (Pair r) [r..<Suc n]
      \<and> (advance n ^^ (Suc n - r)) (r, r) = (Suc r, Suc r)"
    using r by (rule visit_row)
  have k: "tri (Suc n - r) = (Suc n - r) + tri (Suc n - Suc r)"
    using r by (simp add: Suc_diff_le)
  have u: "[r..<Suc n] = r # [Suc r..<Suc n]" using r by (simp add: upt_rec)
  show ?case
    using IH row by (simp only: k visit_add funpow_add_apply u list.map concat.simps tri_row_def)
qed

lemma visit_tri_positions: "visit n (tri n) (1, 1) = tri_positions n"
  using visit_rows [of 1 n] by (simp add: tri_positions_def)

lemma advance_final: "(advance n ^^ tri n) (1, 1) = (Suc n, Suc n)"
  using visit_rows [of 1 n] by simp

lemma length_tri_positions [simp]: "length (tri_positions n) = tri n"
  by (metis length_visit visit_tri_positions)

lemma tri_positions_nth: "j < tri n \<Longrightarrow> tri_positions n ! j = (advance n ^^ j) (1, 1)"
  by (metis visit_nth visit_tri_positions)

lemma tri_positions_bounds:
  "(r, c) \<in> set (tri_positions n) \<Longrightarrow> 1 \<le> r \<and> r \<le> c \<and> c \<le> n"
  by (auto simp: tri_positions_def tri_row_def)

lemma advance_bounds:
  "j < tri n \<Longrightarrow> (advance n ^^ j) (1, 1) = (r, c) \<Longrightarrow> 1 \<le> r \<and> r \<le> c \<and> c \<le> n"
  by (metis tri_positions_bounds tri_positions_nth length_tri_positions nth_mem)

subsection \<open>Diagonal positions\<close>

lemma distinct_rows: "distinct xs \<Longrightarrow> distinct (concat (map (tri_row n) xs))"
  by (induction xs) (auto simp: tri_row_def distinct_map inj_on_def)
lemma distinct_tri_positions: "distinct (tri_positions n)"
  by (simp add: tri_positions_def distinct_rows del: upt_Suc)
lemma tri_positions_split:
  assumes "1 \<le> r" "r \<le> Suc n"
  shows "tri_positions n = concat (map (tri_row n) [1..<r]) @ concat (map (tri_row n) [r..<Suc n])"
proof -
  have "[1..<Suc n] = [1..<r] @ [r..<Suc n]"
    using upt_add_eq_append [of 1 r "Suc n - r"] assms by simp
  then show ?thesis by (simp add: tri_positions_def)
qed
lemma length_rows_from: "r \<le> Suc n \<Longrightarrow> length (concat (map (tri_row n) [r..<Suc n])) = tri (Suc n - r)"
  by (metis length_visit visit_rows)
lemma tri_positions_diag_index:
  assumes "1 \<le> r" "r \<le> n"
  shows "tri_positions n ! diag_index n r = (r, r)"
proof -
  let ?A = "concat (map (tri_row n) [1..<r])" and ?B = "concat (map (tri_row n) [r..<Suc n])"
  have split: "tri_positions n = ?A @ ?B" using assms by (simp add: tri_positions_split)
  have "length ?A + tri (Suc n - r) = tri n"
    using split length_rows_from [of r n] assms by (metis le_SucI length_append length_tri_positions)
  then have len: "length ?A = diag_index n r" by (simp add: diag_index_def)
  have "[r..<Suc n] = r # [Suc r..<Suc n]" using assms by (simp add: upt_conv_Cons)
  then have "?B ! 0 = (r, r)" by (simp add: tri_row_def upt_conv_Cons assms del: upt_Suc)
  moreover have "tri_positions n ! diag_index n r = ?B ! 0"
    by (simp only: split nth_append len) simp
  ultimately show ?thesis by simp
qed

lemma diag_index_less: "1 \<le> r \<Longrightarrow> r \<le> n \<Longrightarrow> diag_index n r < tri n"
proof -
  assume r: "1 \<le> r" "r \<le> n"
  then have "0 < tri (Suc n - r)" using tri_strict_mono [of 0 "Suc n - r"] by simp
  moreover have "tri (Suc n - r) \<le> tri n" using r by (intro tri_mono) simp
  ultimately show ?thesis by (simp add: diag_index_def)
qed

lemma diag_index_strict_mono:
  "1 \<le> r \<Longrightarrow> r < r' \<Longrightarrow> r' \<le> n \<Longrightarrow> diag_index n r < diag_index n r'"
proof -
  assume r: "1 \<le> r" "r < r'" "r' \<le> n"
  then have "tri (Suc n - r') < tri (Suc n - r)" by (intro tri_strict_mono) simp
  moreover have "tri (Suc n - r) \<le> tri n" using r by (intro tri_mono) simp
  ultimately show ?thesis by (simp add: diag_index_def)
qed

lemma diag_index_sorted: "sorted_wrt (<) (map (diag_index n) [1..<Suc n])"
  unfolding sorted_wrt_map
  by (rule sorted_wrt_mono_rel [OF _ sorted_wrt_upt]) (auto intro: diag_index_strict_mono)

lemma diag_indices:
  "filter (\<lambda>j. is_diag (tri_positions n ! j)) [0..<tri n] = map (diag_index n) [1..<Suc n]"
proof (rule sorted_distinct_set_unique)
  show "sorted (filter (\<lambda>j. is_diag (tri_positions n ! j)) [0..<tri n])"
    by (simp add: sorted_wrt_filter)
  show "distinct (filter (\<lambda>j. is_diag (tri_positions n ! j)) [0..<tri n])" by simp
  show "sorted (map (diag_index n) [1..<Suc n])" "distinct (map (diag_index n) [1..<Suc n])"
    using diag_index_sorted [of n] by (simp_all add: strict_sorted_iff del: upt_Suc)
  show "set (filter (\<lambda>j. is_diag (tri_positions n ! j)) [0..<tri n]) = set (map (diag_index n) [1..<Suc n])"
  proof (rule set_eqI, rule iffI)
    fix j assume "j \<in> set (filter (\<lambda>j. is_diag (tri_positions n ! j)) [0..<tri n])"
    then have j: "j < tri n" and d: "is_diag (tri_positions n ! j)" by auto
    obtain r c where rc: "tri_positions n ! j = (r, c)" by fastforce
    with d have "c = r" by (simp add: is_diag_def)
    moreover have b: "1 \<le> r \<and> r \<le> c \<and> c \<le> n"
      using rc j by (metis tri_positions_bounds length_tri_positions nth_mem)
    ultimately have eq: "tri_positions n ! j = tri_positions n ! diag_index n r"
      using rc by (simp add: tri_positions_diag_index)
    have "diag_index n r < tri n" using b by (simp add: diag_index_less)
    with j eq have "j = diag_index n r"
      using distinct_tri_positions [of n] by (simp add: nth_eq_iff_index_eq)
    moreover have "r \<in> set [1..<Suc n]" using b by (simp del: upt_Suc)
    ultimately show "j \<in> set (map (diag_index n) [1..<Suc n])" by (simp del: upt_Suc)
  next
    fix j assume "j \<in> set (map (diag_index n) [1..<Suc n])"
    then obtain r where r: "1 \<le> r" "r \<le> n" and j: "j = diag_index n r" by auto
    then show "j \<in> set (filter (\<lambda>j. is_diag (tri_positions n ! j)) [0..<tri n])"
      by (simp add: diag_index_less tri_positions_diag_index is_diag_def)
  qed
qed

subsection \<open>Properties of the tracker\<close>

text \<open>
  C8: refinement of the packed order by the tracker: started at \<open>(1, 1)\<close>, the
  counters of lines 33--38 visit, in \<open>tri n\<close> iterations, exactly the positions
  of the row-major packing of an upper-triangular \<open>n \<times> n\<close> matrix, in order, and
  end at \<open>(n + 1, n + 1)\<close>.
\<close>

theorem tracker_enumerates_packing:
  "visit n (tri n) (1, 1) = tri_positions n \<and> (advance n ^^ tri n) (1, 1) = (Suc n, Suc n)"
  using visit_tri_positions advance_final by blast

text \<open>
  C9: during the \<open>tri n\<close> iterations the counters always satisfy
  \<open>1 \<le> row \<le> col \<le> n\<close> and never visit a position twice.
\<close>

theorem tracker_distinct_in_range:
  assumes "i < j" "j < tri n"
  shows "(advance n ^^ i) (1, 1) \<noteq> (advance n ^^ j) (1, 1)
    \<and> 1 \<le> fst ((advance n ^^ j) (1, 1)) \<and> fst ((advance n ^^ j) (1, 1)) \<le> snd ((advance n ^^ j) (1, 1))
    \<and> snd ((advance n ^^ j) (1, 1)) \<le> n"
proof -
  have i: "i < tri n" using assms by simp
  have "tri_positions n ! i \<noteq> tri_positions n ! j"
    using assms i distinct_tri_positions [of n] by (simp add: nth_eq_iff_index_eq)
  moreover have "1 \<le> fst ((advance n ^^ j) (1, 1)) \<and> fst ((advance n ^^ j) (1, 1)) \<le> snd ((advance n ^^ j) (1, 1))
    \<and> snd ((advance n ^^ j) (1, 1)) \<le> n"
    using advance_bounds [OF assms(2)] by (cases "(advance n ^^ j) (1, 1)") simp
  ultimately show ?thesis using i assms(2) by (simp add: tri_positions_nth)
qed

theorem tracker_distinct_in_range_witness:
  "(1::nat) < 4 \<and> (4::nat) < tri 3
   \<and> (advance 3 ^^ 1) (1, 1) \<noteq> (advance 3 ^^ 4) (1, 1)
   \<and> 1 \<le> fst ((advance 3 ^^ 4) (1, 1)) \<and> fst ((advance 3 ^^ 4) (1, 1)) \<le> snd ((advance 3 ^^ 4) (1, 1))
   \<and> snd ((advance 3 ^^ 4) (1, 1)) \<le> 3"
proof -
  have h: "(1::nat) < 4" "(4::nat) < tri 3" by (simp_all add: tri_def)
  show ?thesis using h tracker_distinct_in_range [OF h] by blast
qed

end
