(* ===== verification/PackedIndex.thy ===== *)
theory PackedIndex
  imports TriIndex
begin

text \<open>
  A direct reference for the packed order of theory \<open>TriIndex\<close>.  The kernel
  never computes the coordinates of an element from its index: it carries them
  incrementally in \<open>row\<close> and \<open>col\<close> (lines 22--23, 33--38 of
  \<^verbatim>\<open>DiagReciprocal.hpp\<close>).  This theory defines the two closed-form maps of
  the row-major upper-triangular packing, \<open>packed_index\<close> from a position to its
  index and \<open>packed_pos\<close> from an index to its position (row by row, subtracting
  row lengths), and shows that the incremental tracker computes the same
  positions as the direct map, and that the two maps are inverse.
\<close>

definition packed_index :: "nat \<Rightarrow> nat \<times> nat \<Rightarrow> nat" where
  "packed_index n p = (case p of (r, c) \<Rightarrow> diag_index n r + (c - r))"

function pos_from :: "nat \<Rightarrow> nat \<Rightarrow> nat \<Rightarrow> nat \<times> nat" where
  "pos_from n r j =
     (if n < r then (r, r)
      else if j < Suc n - r then (r, r + j)
      else pos_from n (Suc r) (j - (Suc n - r)))"
  by pat_completeness auto
termination
  by (relation "measure (\<lambda>(n, r, j). Suc n - r)") auto

definition packed_pos :: "nat \<Rightarrow> nat \<Rightarrow> nat \<times> nat" where
  "packed_pos n j = pos_from n 1 j"

declare pos_from.simps [simp del]

subsection \<open>The direct maps against the packing\<close>

lemma rows_from_Cons:
  "r \<le> n \<Longrightarrow> concat (map (tri_row n) [r..<Suc n])
     = map (Pair r) [r..<Suc n] @ concat (map (tri_row n) [Suc r..<Suc n])"
  by (simp add: upt_conv_Cons tri_row_def del: upt_Suc)

lemma tri_Suc_diff: "r \<le> n \<Longrightarrow> tri (Suc n - r) = (Suc n - r) + tri (Suc n - Suc r)"
  by (simp add: Suc_diff_le)

lemma pos_from_nth:
  "r \<le> Suc n \<Longrightarrow> j < tri (Suc n - r) \<Longrightarrow> pos_from n r j = concat (map (tri_row n) [r..<Suc n]) ! j"
proof (induction n r j rule: pos_from.induct)
  case (1 n r j)
  show ?case
  proof (cases "n < r")
    case True
    with "1.prems" show ?thesis by simp
  next
    case False
    then have r: "r \<le> n" by simp
    show ?thesis
    proof (cases "j < Suc n - r")
      case True
      with r show ?thesis by (simp add: pos_from.simps rows_from_Cons nth_append del: upt_Suc)
    next
      case j: False
      have "pos_from n (Suc r) (j - (Suc n - r)) = concat (map (tri_row n) [Suc r..<Suc n]) ! (j - (Suc n - r))"
        using r j "1.prems" by (intro "1.IH") (simp_all add: tri_Suc_diff)
      with r j show ?thesis by (simp add: pos_from.simps rows_from_Cons nth_append del: upt_Suc)
    qed
  qed
qed

lemma pos_from_end: "r \<le> Suc n \<Longrightarrow> pos_from n r (tri (Suc n - r)) = (Suc n, Suc n)"
proof (induction "Suc n - r" arbitrary: r)
  case 0
  then show ?case by (simp add: pos_from.simps)
next
  case (Suc m)
  then have r: "r \<le> n" by simp
  have "pos_from n (Suc r) (tri (Suc n - Suc r)) = (Suc n, Suc n)"
    using Suc.hyps(2) r by (intro Suc.hyps(1)) simp_all
  with r show ?case by (simp add: pos_from.simps [of n r] tri_Suc_diff)
qed

lemma packed_pos_advance: "j \<le> tri n \<Longrightarrow> packed_pos n j = (advance n ^^ j) (1, 1)"
proof (cases "j = tri n")
  case True
  then show ?thesis using pos_from_end [of 1 n] advance_final [of n] by (simp add: packed_pos_def)
next
  case False
  moreover assume "j \<le> tri n"
  ultimately have j: "j < tri n" by simp
  then have "packed_pos n j = tri_positions n ! j"
    using pos_from_nth [of 1 n j] by (simp add: packed_pos_def tri_positions_def)
  with j show ?thesis by (simp add: tri_positions_nth)
qed

lemma packed_pos_nth: "j < tri n \<Longrightarrow> packed_pos n j = tri_positions n ! j"
  by (simp add: packed_pos_advance tri_positions_nth)

lemma packed_index_nth:
  assumes "1 \<le> r" "r \<le> c" "c \<le> n"
  shows "packed_index n (r, c) < tri n \<and> tri_positions n ! packed_index n (r, c) = (r, c)"
proof -
  let ?A = "concat (map (tri_row n) [1..<r])" and ?B = "concat (map (tri_row n) [r..<Suc n])"
  have split: "tri_positions n = ?A @ ?B" using assms by (simp add: tri_positions_split)
  have "length ?A + tri (Suc n - r) = tri n"
    using split length_rows_from [of r n] assms by (metis le_SucI le_trans length_append length_tri_positions)
  then have len: "length ?A = diag_index n r" by (simp add: diag_index_def)
  have B: "?B = map (Pair r) [r..<Suc n] @ concat (map (tri_row n) [Suc r..<Suc n])"
    using assms by (intro rows_from_Cons) simp
  have cr: "c - r < Suc n - r" using assms by simp
  have "tri_positions n ! packed_index n (r, c) = ?B ! (c - r)"
    by (simp only: split nth_append len packed_index_def) simp
  also have "\<dots> = (r, c)" using cr assms by (simp only: B nth_append) (simp del: upt_Suc)
  finally have nth: "tri_positions n ! packed_index n (r, c) = (r, c)" .
  have "c - r < length ?B" using cr assms B by (simp del: upt_Suc)
  moreover have "length (tri_positions n) = length ?A + length ?B" by (simp only: split length_append)
  ultimately have "packed_index n (r, c) < length (tri_positions n)"
    by (simp only: len packed_index_def prod.case)
  with nth show ?thesis by simp
qed

subsection \<open>Properties of the direct maps\<close>

text \<open>
  C15: equivalence of the incremental tracker with the direct map: the
  positions the code's \<open>row\<close>/\<open>col\<close> counters take over the \<open>tri n\<close>
  iterations are \<open>packed_pos n 0, .., packed_pos n (tri n - 1)\<close>, and the
  counters end at \<open>packed_pos n (tri n) = (n + 1, n + 1)\<close>.
\<close>

theorem tracker_direct:
  "visit n (tri n) (1, 1) = map (packed_pos n) [0..<tri n]
   \<and> (advance n ^^ tri n) (1, 1) = packed_pos n (tri n)"
proof
  show "visit n (tri n) (1, 1) = map (packed_pos n) [0..<tri n]"
    by (rule nth_equalityI) (simp_all add: visit_nth packed_pos_advance)
  show "(advance n ^^ tri n) (1, 1) = packed_pos n (tri n)"
    by (simp add: packed_pos_advance)
qed

text \<open>
  C16: round trip from an index: the counters of the code after \<open>j\<close>
  iterations, \<open>j < tri n\<close>, hold the position whose packed index is \<open>j\<close>;
  that is, \<open>i = packed_index n (row, col)\<close> throughout the loop, so the
  loop counter \<open>i\<close> and the pair \<open>(row, col)\<close> never disagree.
\<close>

theorem tracker_index_roundtrip:
  assumes j: "j < tri n"
  shows "packed_index n ((advance n ^^ j) (1, 1)) = j"
proof -
  obtain r c where rc: "(advance n ^^ j) (1, 1) = (r, c)" by fastforce
  then have p: "tri_positions n ! j = (r, c)"
    using j by (simp add: tri_positions_nth)
  have b: "1 \<le> r" "r \<le> c" "c \<le> n"
    using p j by (metis tri_positions_bounds length_tri_positions nth_mem)+
  have "packed_index n (r, c) < tri n \<and> tri_positions n ! packed_index n (r, c) = (r, c)"
    using b by (rule packed_index_nth)
  then have "tri_positions n ! packed_index n (r, c) = tri_positions n ! j \<and> packed_index n (r, c) < tri n"
    using p by simp
  then have "packed_index n (r, c) = j"
    using j nth_eq_iff_index_eq [OF distinct_tri_positions [of n]] by auto
  with rc show ?thesis by simp
qed

theorem tracker_index_roundtrip_witness: "4 < tri 3 \<and> packed_index 3 ((advance 3 ^^ 4) (1, 1)) = 4"
proof -
  have h: "4 < tri 3" by (simp add: tri_def)
  show ?thesis using h tracker_index_roundtrip [OF h] by simp
qed

text \<open>
  C17: round trip from a position: every position \<open>(r, c)\<close> of the upper
  triangle, \<open>1 \<le> r \<le> c \<le> n\<close>, has a packed index below \<open>tri n\<close>; the code's
  counters hold \<open>(r, c)\<close> after exactly that many iterations, and the direct
  map gives \<open>(r, c)\<close> back for it.
\<close>

theorem tracker_visits_position:
  assumes "1 \<le> r" "r \<le> c" "c \<le> n"
  shows "packed_index n (r, c) < tri n \<and> (advance n ^^ packed_index n (r, c)) (1, 1) = (r, c)
    \<and> packed_pos n (packed_index n (r, c)) = (r, c)"
proof -
  have i: "packed_index n (r, c) < tri n \<and> tri_positions n ! packed_index n (r, c) = (r, c)"
    using assms by (rule packed_index_nth)
  then have lt: "packed_index n (r, c) < tri n" and nth: "tri_positions n ! packed_index n (r, c) = (r, c)"
    by simp_all
  show ?thesis
    using lt nth packed_pos_nth [OF lt] tri_positions_nth [OF lt] by simp
qed

theorem tracker_visits_position_witness:
  "1 \<le> (2::nat) \<and> (2::nat) \<le> 3 \<and> (3::nat) \<le> 3
   \<and> packed_index 3 (2, 3) < tri 3 \<and> (advance 3 ^^ packed_index 3 (2, 3)) (1, 1) = (2, 3)
   \<and> packed_pos 3 (packed_index 3 (2, 3)) = (2, 3)"
proof -
  have h: "1 \<le> (2::nat)" "(2::nat) \<le> 3" "(3::nat) \<le> 3" by simp_all
  show ?thesis using h tracker_visits_position [OF h] by simp
qed

end
