(* ===== verification/MvdrComplex.thy ===== *)
theory MvdrComplex
  imports Prelude
begin

text \<open>
  The element type of the input pipe.  \<^verbatim>\<open>DiagReciprocal.hpp\<close> includes
  \<^verbatim>\<open>mvdr_complex.hpp\<close>, which is not part of the sources; following the
  specification (section 3), an element is a pair of a real and an imaginary
  part of one floating-point type, and the kernel reads only the real part
  (\<^verbatim>\<open>entry.real()\<close>).  The floating-point type is left as a type
  variable of class \<open>{one, inverse}\<close>, so that every kernel theorem holds for
  whatever division the device implements.
\<close>

record 'f ComplexType =
  c_real :: 'f
  c_imag :: 'f

end
