(* ===== verification/DiagReciprocal.thy ===== *)
theory DiagReciprocal
  imports PackedIndex MvdrComplex
begin

text \<open>
  The kernel of \<^verbatim>\<open>src/DirectProgramming/DPC++FPGA/ReferenceDesigns/mvdr_beamforming/src/DiagReciprocal.hpp\<close>
  (\<open>SubmitDiagReciprocalKernel\<close>, lines 13--44), at the width of the code:
  the loop counter \<open>i\<close>, the bound \<open>total_reads\<close> and the position counters
  \<open>row\<close> and \<open>col\<close> are 32-bit \<open>int\<close>s (\<open>int32\<close>), the template parameter
  \<open>num_rows\<close> is a 64-bit \<open>size_t\<close>.  The input pipe \<open>RMatrixInPipe\<close> is the
  list of the elements its producer will deliver; a read on an empty pipe blocks
  for ever, which the model records as the result \<open>Blocked\<close> with the state at
  that read.  The output pipe \<open>RDiagRecipVectorOutPipe\<close> is the list of the
  values written to it, in order.

  The loop is a \<^theory_text>\<open>function\<close> whose termination measure is the signed
  distance from \<open>i\<close> to \<open>total_reads\<close>.  The correctness proof is a
  simulation: \<open>kernel_after n xs j\<close> is the state the code is in after \<open>j\<close>
  iterations, computed from the natural-number tracker of \<open>TriIndex\<close>, and one
  iteration of the code takes \<open>kernel_after n xs j\<close> to \<open>kernel_after n xs (j+1)\<close>
  as long as \<open>num_rows \<le> 65535\<close> (the largest size whose element count fits in an
  \<open>int\<close>).  The specification of the output is \<open>diag_stream\<close>: the reciprocals
  of the real parts of the elements that the packed order puts on the diagonal.
  The well-formedness of the counters, \<open>counters_wf\<close>, is stated through the
  direct map \<open>packed_pos\<close> of theory \<open>PackedIndex\<close>.
\<close>

subsection \<open>State and operations\<close>

definition total_reads :: "size_t \<Rightarrow> int32" where
  "total_reads num_rows = ucast (num_rows * (num_rows + 1) div 2)"

text \<open>
  The three \<open>int\<close> counters of the lambda, \<open>i\<close>, \<open>row\<close> and \<open>col\<close>, form a
  record of their own: the sequential state \<open>kstate\<close> below and the pipeline
  state of theory \<open>Pipeline\<close> both extend it, and both update it with the same
  operation \<open>advance_counters\<close>.
\<close>

record kcounters =
  k_i :: int32
  k_row :: int32
  k_col :: int32

record 'f kstate = kcounters +
  k_in :: "'f ComplexType list"
  k_out :: "'f list"

datatype 'f kresult = Finished "'f kstate" | Blocked "'f kstate"

definition advance_counters :: "size_t \<Rightarrow> 'a kcounters_scheme \<Rightarrow> 'a kcounters_scheme" where
  "advance_counters num_rows s =
     (let s1 = (if scast (k_col s) = num_rows
                then s\<lparr>k_col := k_row s + 1, k_row := k_row s + 1\<rparr>
                else s\<lparr>k_col := k_col s + 1\<rparr>)
      in s1\<lparr>k_i := k_i s1 + 1\<rparr>)"

definition kernel_body :: "size_t \<Rightarrow> ('f::{one, inverse}) kstate \<Rightarrow> 'f kstate option" where
  "kernel_body num_rows s =
     (case k_in s of
        [] \<Rightarrow> None
      | entry # rest \<Rightarrow>
          (let s1 = s\<lparr>k_in := rest\<rparr>;
               s2 = (if k_row s1 = k_col s1
                     then s1\<lparr>k_out := k_out s1 @ [1 / c_real entry]\<rparr> else s1)
           in Some (advance_counters num_rows s2)))"

function kernel_loop :: "int32 \<Rightarrow> size_t \<Rightarrow> ('f::{one, inverse}) kstate \<Rightarrow> 'f kresult" where
  "kernel_loop limit num_rows s =
     (if k_i s <s limit then
        (case kernel_body num_rows s of
           None \<Rightarrow> Blocked s
         | Some s' \<Rightarrow> kernel_loop limit num_rows s')
      else Finished s)"
  by pat_completeness auto
termination
proof (relation "measure (\<lambda>(t, n, s). nat (sint t - sint (k_i s)))")
  show "wf (measure (\<lambda>(t, n, s). nat (sint t - sint (k_i s))))" by simp
next
  fix t :: int32 and n :: size_t and s s' :: "'f::{one, inverse} kstate"
  assume lt: "k_i s <s t" and b: "kernel_body n s = Some s'"
  from b have "k_i s' = k_i s + 1"
    by (auto simp: kernel_body_def advance_counters_def Let_def split: list.splits)
  with lt have "sint (k_i s') = sint (k_i s) + 1" by (simp add: sint_incr)
  moreover have "sint (k_i s) < sint t" using lt by (simp add: word_sless_alt)
  ultimately show "((t, n, s'), (t, n, s)) \<in> measure (\<lambda>(t, n, s). nat (sint t - sint (k_i s)))"
    by simp
qed

definition kernel_init :: "'f ComplexType list \<Rightarrow> 'f kstate" where
  "kernel_init inp = \<lparr>k_i = 0, k_row = 1, k_col = 1, k_in = inp, k_out = []\<rparr>"

definition SubmitDiagReciprocalKernel :: "size_t \<Rightarrow> ('f::{one, inverse}) ComplexType list \<Rightarrow> 'f kresult" where
  "SubmitDiagReciprocalKernel num_rows inp =
     kernel_loop (total_reads num_rows) num_rows (kernel_init inp)"


subsection \<open>Specification and simulation state\<close>

definition diag_stream :: "nat \<Rightarrow> ('f::{one, inverse}) ComplexType list \<Rightarrow> 'f list" where
  "diag_stream n xs = map (\<lambda>(p, e). 1 / c_real e) (filter (\<lambda>(p, e). is_diag p) (zip (tri_positions n) xs))"

definition kernel_after :: "nat \<Rightarrow> ('f::{one, inverse}) ComplexType list \<Rightarrow> nat \<Rightarrow> 'f kstate" where
  "kernel_after n xs j = (case (advance n ^^ j) (1, 1) of (r, c) \<Rightarrow>
     \<lparr>k_i = word_of_nat j, k_row = word_of_nat r, k_col = word_of_nat c,
      k_in = drop j xs, k_out = diag_stream n (take j xs)\<rparr>)"

definition counters_at :: "nat \<Rightarrow> nat \<Rightarrow> int32 \<times> int32 \<times> int32" where
  "counters_at n j = (case (advance n ^^ j) (1, 1) of (r, c) \<Rightarrow>
     (word_of_nat j, word_of_nat r, word_of_nat c))"

definition at_iter :: "nat \<Rightarrow> nat \<Rightarrow> 'a kcounters_scheme \<Rightarrow> bool" where
  "at_iter n j s = ((k_i s, k_row s, k_col s) = counters_at n j)"

text \<open>
  Well-formed counters: \<open>i\<close> is a packed index between \<open>0\<close> and
  \<open>tri n\<close>, and \<open>row\<close>, \<open>col\<close> are the coordinates the direct map of theory
  \<open>PackedIndex\<close> gives for it.  This is the typing of the kernel's three
  \<open>int\<close>s: any state with such counters, not only a reachable one, is one the
  loop can be in.
\<close>

definition counters_wf :: "nat \<Rightarrow> 'a kcounters_scheme \<Rightarrow> bool" where
  "counters_wf n s = (0 \<le> sint (k_i s) \<and> nat (sint (k_i s)) \<le> tri n
     \<and> (case packed_pos n (nat (sint (k_i s))) of
          (r, c) \<Rightarrow> k_row s = word_of_nat r \<and> k_col s = word_of_nat c))"


text \<open>
  Inputs of the specification's test list (section 8), used by the witnesses:
  the packed \<open>3 \<times> 3\<close> matrix with real parts \<open>2, 9, 9, 5, 9, 4\<close> and the
  \<open>1 \<times> 1\<close> matrix \<open>(7, 3)\<close>.
\<close>

definition spec_stream_3 :: "real ComplexType list" where
  "spec_stream_3 = [\<lparr>c_real = 2, c_imag = 1\<rparr>, \<lparr>c_real = 9, c_imag = 0\<rparr>,
     \<lparr>c_real = 9, c_imag = 2\<rparr>, \<lparr>c_real = 5, c_imag = 0\<rparr>,
     \<lparr>c_real = 9, c_imag = 3\<rparr>, \<lparr>c_real = 4, c_imag = 0\<rparr>]"

definition spec_stream_1 :: "real ComplexType list" where
  "spec_stream_1 = [\<lparr>c_real = 7, c_imag = 3\<rparr>]"

declare kernel_loop.simps [simp del]

subsection \<open>Arithmetic of the bound\<close>

lemma total_reads_small:
  assumes "unat num_rows \<le> 65535"
  shows "total_reads num_rows = word_of_nat (tri (unat num_rows))"
proof -
  let ?N = "unat num_rows"
  have a: "unat (num_rows + 1) = ?N + 1"
    using assms by (simp add: unat_word_ariths)
  have "?N * (?N + 1) \<le> 65535 * 65536"
    using assms by (intro mult_le_mono) simp_all
  then have m: "unat (num_rows * (num_rows + 1)) = ?N * (?N + 1)"
    by (simp add: unat_word_ariths a)
  have "unat (num_rows * (num_rows + 1) div 2) = tri ?N"
    using m by (simp add: unat_div tri_def)
  then show ?thesis by (metis of_nat_unat total_reads_def)
qed

lemma total_reads_sless:
  assumes "unat num_rows \<le> 65535" "j \<le> tri (unat num_rows)"
  shows "((word_of_nat j :: int32) <s total_reads num_rows) = (j < tri (unat num_rows))"
proof -
  have "tri (unat num_rows) < 2 ^ 31" using assms(1) by (rule tri_bound)
  with assms show ?thesis by (simp add: total_reads_small width_simps)
qed

subsection \<open>One iteration\<close>

lemma kernel_body_i: "kernel_body n s = Some s' \<Longrightarrow> k_i s' = k_i s + 1"
  by (auto simp: kernel_body_def advance_counters_def Let_def split: list.splits if_splits)

lemma diag_stream_take_Suc:
  "j < tri n \<Longrightarrow> j < length xs \<Longrightarrow> diag_stream n (take (Suc j) xs) =
     diag_stream n (take j xs) @ (if is_diag (tri_positions n ! j) then [1 / c_real (xs ! j)] else [])"
  by (simp add: diag_stream_def zip_take_Suc)

lemma diag_stream_take_all: "diag_stream n (take (tri n) xs) = diag_stream n xs"
  by (simp add: diag_stream_def zip_take_right)

lemma diag_stream_prefix: "\<exists>r. diag_stream n xs = diag_stream n (take j xs) @ r"
proof -
  have "zip (tri_positions n) xs = zip (tri_positions n) (take j xs @ drop j xs)" by simp
  also have "\<dots> = zip (tri_positions n) (take j xs)
      @ zip (drop (length (take j xs)) (tri_positions n)) (drop j xs)"
    by (simp only: zip_append2 zip_take_length_left)
  finally show ?thesis by (auto simp: diag_stream_def)
qed


lemma kernel_after_0: "kernel_after n xs 0 = kernel_init xs"
  by (simp add: kernel_after_def kernel_init_def diag_stream_def)

lemma kernel_after_fields:
  "k_i (kernel_after n xs j) = word_of_nat j" "k_in (kernel_after n xs j) = drop j xs"
  "k_out (kernel_after n xs j) = diag_stream n (take j xs)"
  by (simp_all add: kernel_after_def split: prod.splits)

lemma kernel_body_None: "(kernel_body n s = None) = (k_in s = [])"
  by (simp add: kernel_body_def Let_def split: list.splits)

lemma kernel_body_Nil: "k_in s = [] \<Longrightarrow> kernel_body n s = None"
  by (simp add: kernel_body_None)

lemma advance_counters_sel [simp]:
  "k_i (advance_counters m s) = k_i s + 1"
  "k_row (advance_counters m s) = (if scast (k_col s) = m then k_row s + 1 else k_row s)"
  "k_col (advance_counters m s) = (if scast (k_col s) = m then k_row s + 1 else k_col s + 1)"
  "kcounters.more (advance_counters m s) = kcounters.more s"
  by (simp_all add: advance_counters_def Let_def)

lemma advance_counters_kstate [simp]:
  "k_in (advance_counters m s) = k_in s" "k_out (advance_counters m s) = k_out s"
  by (simp_all add: advance_counters_def Let_def)

lemma at_iter_kernel_after: "at_iter n j (kernel_after n xs j)"
  by (simp add: at_iter_def counters_at_def kernel_after_def split: prod.splits)

lemma kernel_after_eq:
  fixes s :: "'f::{one, inverse} kstate"
  assumes "at_iter n j s" "k_in s = drop j xs" "k_out s = diag_stream n (take j xs)"
  shows "s = kernel_after n xs j"
  using assms by (cases s) (simp add: at_iter_def counters_at_def kernel_after_def split: prod.splits)

text \<open>
  The counter update of lines 25 and 33--38 on 32-bit words follows the
  natural-number tracker for as long as the loop runs, and the diagonal test of
  line 29 on the words is the diagonal test of the packed position.
\<close>

lemma counters_step:
  assumes N: "unat num_rows \<le> 65535" and j: "j < tri (unat num_rows)"
    and a: "at_iter (unat num_rows) j s"
  shows "at_iter (unat num_rows) (Suc j) (advance_counters num_rows s)
    \<and> (k_row s = k_col s) = is_diag (tri_positions (unat num_rows) ! j)"
proof -
  let ?N = "unat num_rows"
  obtain r c where rc: "(advance ?N ^^ j) (1, 1) = (r, c)" by fastforce
  then have b: "1 \<le> r \<and> r \<le> c \<and> c \<le> ?N" using j advance_bounds by blast
  have ks: "k_i s = word_of_nat j" "k_row s = word_of_nat r" "k_col s = word_of_nat c"
    using a unfolding at_iter_def counters_at_def rc by simp_all
  have rc_eq: "((word_of_nat r :: int32) = word_of_nat c) = (r = c)"
    using b N by (simp add: width_simps)
  have col_eq: "((scast (word_of_nat c :: int32) :: size_t) = num_rows) = (c = ?N)"
    using b N by (simp add: width_simps)
  have adv: "(advance ?N ^^ Suc j) (1, 1) = (if c = ?N then (Suc r, Suc r) else (r, Suc c))"
    using rc by (simp add: advance_def)
  have cnt: "counters_at ?N (Suc j) = (if c = ?N
      then (word_of_nat j + 1, word_of_nat r + 1, word_of_nat r + 1)
      else (word_of_nat j + 1, word_of_nat r, word_of_nat c + 1))"
    unfolding counters_at_def adv by (simp add: add.commute)
  have "at_iter ?N (Suc j) (advance_counters num_rows s)"
    unfolding at_iter_def cnt by (simp add: advance_counters_def Let_def ks col_eq)
  moreover have "(k_row s = k_col s) = is_diag (tri_positions ?N ! j)"
    using j rc by (simp add: ks rc_eq tri_positions_nth is_diag_def)
  ultimately show ?thesis by blast
qed

lemma word_of_nat_sint: "0 \<le> sint w \<Longrightarrow> (word_of_nat (nat (sint w)) :: 'a::len word) = w"
  by (simp add: of_nat_nat)

lemma counters_wf_at_iter:
  assumes N: "n \<le> 65535"
  shows "counters_wf n s = (\<exists>j \<le> tri n. at_iter n j s)"
proof
  assume w: "counters_wf n s"
  let ?j = "nat (sint (k_i s))"
  have j: "?j \<le> tri n" and i: "k_i s = word_of_nat ?j" using w by (simp_all add: counters_wf_def word_of_nat_sint)
  have "at_iter n ?j s"
    using w j i by (auto simp: counters_wf_def at_iter_def counters_at_def packed_pos_advance split: prod.splits)
  with j show "\<exists>j \<le> tri n. at_iter n j s" by blast
next
  assume "\<exists>j \<le> tri n. at_iter n j s"
  then obtain j where j: "j \<le> tri n" and a: "at_iter n j s" by blast
  have "tri n < 2 ^ 31" using N by (rule tri_bound)
  then have "sint (k_i s) = int j"
    using a j by (simp add: at_iter_def counters_at_def sint_of_nat_small split: prod.splits)
  with a j show "counters_wf n s"
    by (auto simp: counters_wf_def at_iter_def counters_at_def packed_pos_advance split: prod.splits)
qed

lemma kernel_body_counters:
  "kernel_body n s = Some t \<Longrightarrow>
     k_i t = k_i (advance_counters n s) \<and> k_row t = k_row (advance_counters n s)
     \<and> k_col t = k_col (advance_counters n s)"
  by (auto simp: kernel_body_def Let_def split: list.splits)

lemma counters_wf_cong:
  "k_i t = k_i u \<and> k_row t = k_row u \<and> k_col t = k_col u \<Longrightarrow> counters_wf n t = counters_wf n u"
  by (simp add: counters_wf_def)

lemma advance_counters_wf:
  assumes N: "unat num_rows \<le> 65535" and w: "counters_wf (unat num_rows) s"
    and lt: "k_i s <s total_reads num_rows"
  shows "counters_wf (unat num_rows) (advance_counters num_rows s)"
proof -
  obtain j where j: "j \<le> tri (unat num_rows)" and a: "at_iter (unat num_rows) j s"
    using w counters_wf_at_iter [OF N] by blast
  have "k_i s = word_of_nat j" using a by (simp add: at_iter_def counters_at_def split: prod.splits)
  then have "j < tri (unat num_rows)" using lt total_reads_sless [OF N j] by simp
  then have "at_iter (unat num_rows) (Suc j) (advance_counters num_rows s)"
    using counters_step [OF N _ a] by blast
  moreover have "Suc j \<le> tri (unat num_rows)" using \<open>j < tri (unat num_rows)\<close> by simp
  ultimately show ?thesis using counters_wf_at_iter [OF N] by blast
qed

lemma kernel_body_step:
  assumes N: "unat num_rows \<le> 65535" and j: "j < tri (unat num_rows)" "j < length xs"
  shows "kernel_body num_rows (kernel_after (unat num_rows) xs j)
           = Some (kernel_after (unat num_rows) xs (Suc j))"
proof -
  let ?N = "unat num_rows" and ?s = "kernel_after (unat num_rows) xs j"
  have step: "at_iter ?N (Suc j) (advance_counters num_rows ?s)
      \<and> (k_row ?s = k_col ?s) = is_diag (tri_positions ?N ! j)"
    using N j(1) at_iter_kernel_after by (rule counters_step)
  have inp: "drop j xs = xs ! j # drop (Suc j) xs"
    using j by (simp add: Cons_nth_drop_Suc)
  have out: "diag_stream ?N (take (Suc j) xs) =
     diag_stream ?N (take j xs) @ (if is_diag (tri_positions ?N ! j) then [1 / c_real (xs ! j)] else [])"
    using j by (rule diag_stream_take_Suc)
  let ?s2 = "?s\<lparr>k_in := drop (Suc j) xs, k_out := diag_stream ?N (take (Suc j) xs)\<rparr>"
  have body: "kernel_body num_rows ?s = Some (advance_counters num_rows ?s2)"
  proof (cases "is_diag (tri_positions ?N ! j)")
    case True
    with step out show ?thesis by (simp add: kernel_body_def inp Let_def kernel_after_fields)
  next
    case False
    with out have "?s2 = ?s\<lparr>k_in := drop (Suc j) xs\<rparr>" by (simp add: kernel_after_fields)
    with False step show ?thesis by (simp add: kernel_body_def inp Let_def kernel_after_fields)
  qed
  have "at_iter ?N (Suc j) (advance_counters num_rows ?s2) = at_iter ?N (Suc j) (advance_counters num_rows ?s)"
    by (simp add: at_iter_def)
  with step have "at_iter ?N (Suc j) (advance_counters num_rows ?s2)" by simp
  then have "advance_counters num_rows ?s2 = kernel_after ?N xs (Suc j)"
    by (rule kernel_after_eq) simp_all
  with body show ?thesis by simp
qed

subsection \<open>The loop\<close>

lemma kernel_loop_after:
  assumes N: "unat num_rows \<le> 65535"
    and j: "j \<le> tri (unat num_rows)" "j \<le> length xs"
  shows "kernel_loop (total_reads num_rows) num_rows (kernel_after (unat num_rows) xs j) =
     (if tri (unat num_rows) \<le> length xs
      then Finished (kernel_after (unat num_rows) xs (tri (unat num_rows)))
      else Blocked (kernel_after (unat num_rows) xs (length xs)))"
  using j
proof (induction "tri (unat num_rows) - j" arbitrary: j)
  case 0
  then have "j = tri (unat num_rows)" by simp
  with 0 N show ?case
    by (subst kernel_loop.simps) (simp add: kernel_after_fields total_reads_sless)
next
  case (Suc m)
  then have lt: "j < tri (unat num_rows)" by simp
  show ?case
  proof (cases "j < length xs")
    case True
    have "kernel_loop (total_reads num_rows) num_rows (kernel_after (unat num_rows) xs (Suc j)) =
      (if tri (unat num_rows) \<le> length xs
       then Finished (kernel_after (unat num_rows) xs (tri (unat num_rows)))
       else Blocked (kernel_after (unat num_rows) xs (length xs)))"
      using Suc.hyps(2) lt True by (intro Suc.hyps(1)) simp_all
    then show ?thesis
      using N lt True by (simp add: kernel_loop.simps [of _ _ "kernel_after _ xs j"]
          kernel_after_fields total_reads_sless kernel_body_step)
  next
    case False
    with Suc.prems have "j = length xs" by simp
    with N lt show ?thesis
      by (subst kernel_loop.simps) (simp add: kernel_after_fields total_reads_sless kernel_body_Nil)
  qed
qed

subsection \<open>The diagonal in closed form\<close>

lemma diag_stream_closed_form:
  assumes "tri n \<le> length xs"
  shows "diag_stream n xs = map (\<lambda>r. 1 / c_real (xs ! diag_index n r)) [1..<Suc n]"
proof -
  have "zip (tri_positions n) xs = map (\<lambda>j. (tri_positions n ! j, xs ! j)) [0..<tri n]"
    using assms by (simp add: zip_as_nth)
  then have "filter (\<lambda>(p, e). is_diag p) (zip (tri_positions n) xs)
      = map (\<lambda>j. (tri_positions n ! j, xs ! j)) (map (diag_index n) [1..<Suc n])"
    by (simp add: filter_map o_def diag_indices del: upt_Suc)
  then show ?thesis by (simp add: diag_stream_def del: upt_Suc)
qed
subsection \<open>Running the loop to its end\<close>

lemma kernel_body_Cons:
  "k_in s = x # rest \<Longrightarrow> \<exists>s'. kernel_body n s = Some s' \<and> k_in s' = rest \<and> k_i s' = k_i s + 1"
  by (simp add: kernel_body_def advance_counters_def Let_def)

lemma kernel_loop_consumes:
  "(nat (sint t - sint (k_i s)) \<le> length (k_in s) \<longrightarrow>
      (\<exists>s'. kernel_loop t n s = Finished s' \<and> k_in s' = drop (nat (sint t - sint (k_i s))) (k_in s)))
   \<and> (length (k_in s) < nat (sint t - sint (k_i s)) \<longrightarrow>
      (\<exists>s'. kernel_loop t n s = Blocked s' \<and> k_in s' = []))"
proof (induction t n s rule: kernel_loop.induct)
  case (1 t n s)
  show ?case
  proof (cases "k_i s <s t")
    case False
    then have "nat (sint t - sint (k_i s)) = 0" by (simp add: word_sless_alt)
    with False show ?thesis by (subst kernel_loop.simps) simp
  next
    case lt: True
    then have pos: "0 < nat (sint t - sint (k_i s))" by (simp add: word_sless_alt)
    show ?thesis
    proof (cases "k_in s")
      case Nil
      with lt pos show ?thesis by (subst kernel_loop.simps) (simp add: kernel_body_Nil)
    next
      case (Cons x rest)
      then obtain s' where b: "kernel_body n s = Some s'" and r: "k_in s' = rest"
        and i: "k_i s' = k_i s + 1"
        using kernel_body_Cons by blast
      have m: "nat (sint t - sint (k_i s')) = nat (sint t - sint (k_i s)) - 1"
        using i lt by (simp add: sint_incr)
      have loop: "kernel_loop t n s = kernel_loop t n s'"
        using lt b by (subst kernel_loop.simps) simp
      show ?thesis
        using "1.IH" [OF lt b] Cons r m pos loop
        by (simp add: drop_Cons' Suc_le_eq)
    qed
  qed
qed

lemma kernel_after_final:
  "kernel_after n xs (tri n) = \<lparr>k_i = word_of_nat (tri n), k_row = word_of_nat (Suc n),
     k_col = word_of_nat (Suc n), k_in = drop (tri n) xs, k_out = diag_stream n xs\<rparr>"
  unfolding kernel_after_def advance_final by (simp add: diag_stream_take_all)

lemma kernel_run:
  assumes "unat num_rows \<le> 65535"
  shows "SubmitDiagReciprocalKernel num_rows xs =
     (if tri (unat num_rows) \<le> length xs
      then Finished (kernel_after (unat num_rows) xs (tri (unat num_rows)))
      else Blocked (kernel_after (unat num_rows) xs (length xs)))"
  using kernel_loop_after [OF assms, of 0 xs]
  by (simp add: SubmitDiagReciprocalKernel_def kernel_after_0)

lemma length_diag_stream:
  assumes "tri n \<le> length xs" shows "length (diag_stream n xs) = n"
  using assms by (simp add: diag_stream_closed_form)

lemma kernel_frame:
  assumes N: "unat num_rows \<le> 65535" and L: "length xs = tri (unat num_rows)"
  shows "SubmitDiagReciprocalKernel num_rows (xs @ ys) =
    Finished \<lparr>k_i = word_of_nat (tri (unat num_rows)), k_row = word_of_nat (Suc (unat num_rows)),
      k_col = word_of_nat (Suc (unat num_rows)), k_in = ys, k_out = diag_stream (unat num_rows) xs\<rparr>"
proof -
  let ?N = "unat num_rows"
  have "tri ?N \<le> length (xs @ ys)" using L by simp
  then have "SubmitDiagReciprocalKernel num_rows (xs @ ys) = Finished (kernel_after ?N (xs @ ys) (tri ?N))"
    using kernel_run [OF N, of "xs @ ys"] by simp
  also have "kernel_after ?N (xs @ ys) (tri ?N) = \<lparr>k_i = word_of_nat (tri ?N), k_row = word_of_nat (Suc ?N),
      k_col = word_of_nat (Suc ?N), k_in = drop (tri ?N) (xs @ ys), k_out = diag_stream ?N (xs @ ys)\<rparr>"
    by (rule kernel_after_final)
  also have "drop (tri ?N) (xs @ ys) = ys" using L by simp
  also have "diag_stream ?N (xs @ ys) = diag_stream ?N (take (tri ?N) (xs @ ys))"
    by (simp only: diag_stream_take_all)
  also have "take (tri ?N) (xs @ ys) = xs" using L by simp
  finally show ?thesis .
qed

subsection \<open>Properties of the kernel\<close>

text \<open>
  C1: for every size up to 65535 and every input pipe that holds at least the
  \<open>N(N+1)/2\<close> elements of one packed matrix, the kernel finishes with \<open>i\<close> at
  \<open>N(N+1)/2\<close>, both position counters at \<open>N + 1\<close>, exactly the first
  \<open>N(N+1)/2\<close> elements consumed, and the reciprocals of the diagonal real parts
  written to the output pipe.
\<close>

theorem kernel_correct:
  assumes "unat num_rows \<le> 65535" "tri (unat num_rows) \<le> length xs"
  shows "SubmitDiagReciprocalKernel num_rows xs =
    Finished \<lparr>k_i = word_of_nat (tri (unat num_rows)), k_row = word_of_nat (Suc (unat num_rows)),
      k_col = word_of_nat (Suc (unat num_rows)), k_in = drop (tri (unat num_rows)) xs,
      k_out = diag_stream (unat num_rows) xs\<rparr>"
  using assms by (simp add: kernel_run kernel_after_final)

theorem kernel_correct_witness:
  "unat (3::size_t) \<le> 65535 \<and> tri (unat (3::size_t)) \<le> length spec_stream_3
   \<and> SubmitDiagReciprocalKernel 3 spec_stream_3 =
    Finished \<lparr>k_i = word_of_nat (tri (unat (3::size_t))), k_row = word_of_nat (Suc (unat (3::size_t))),
      k_col = word_of_nat (Suc (unat (3::size_t))), k_in = drop (tri (unat (3::size_t))) spec_stream_3,
      k_out = diag_stream (unat (3::size_t)) spec_stream_3\<rparr>"
proof -
  have h: "unat (3::size_t) \<le> 65535" "tri (unat (3::size_t)) \<le> length spec_stream_3"
    by (simp_all add: tri_def spec_stream_3_def)
  show ?thesis using h kernel_correct [OF h] by simp
qed

text \<open>
  C2: refinement against the closed-form specification: on a well-formed
  stream, the \<open>r\<close>-th value written (rows \<open>1..N\<close>, in order) is
  \<open>1 / real(e)\<close> for the element \<open>e\<close> at packed index
  \<open>diag_index N r = tri N - tri (N + 1 - r)\<close>, the position of \<open>(r, r)\<close>.
\<close>

theorem kernel_outputs_closed_form:
  assumes "unat num_rows \<le> 65535" "tri (unat num_rows) \<le> length xs"
  shows "\<exists>s. SubmitDiagReciprocalKernel num_rows xs = Finished s
    \<and> k_out s = map (\<lambda>r. 1 / c_real (xs ! diag_index (unat num_rows) r)) [1..<Suc (unat num_rows)]"
  using assms by (simp add: kernel_run kernel_after_final diag_stream_closed_form del: upt_Suc)

theorem kernel_outputs_closed_form_witness:
  "unat (3::size_t) \<le> 65535 \<and> tri (unat (3::size_t)) \<le> length spec_stream_3
   \<and> (\<exists>s. SubmitDiagReciprocalKernel 3 spec_stream_3 = Finished s
     \<and> k_out s = map (\<lambda>r. 1 / c_real (spec_stream_3 ! diag_index (unat (3::size_t)) r)) [1..<Suc (unat (3::size_t))])"
proof -
  have h: "unat (3::size_t) \<le> 65535" "tri (unat (3::size_t)) \<le> length spec_stream_3"
    by (simp_all add: tri_def spec_stream_3_def)
  show ?thesis using h kernel_outputs_closed_form [OF h] by blast
qed

text \<open>
  C3: on a well-formed stream the kernel writes exactly \<open>N\<close> values and reads
  exactly \<open>N(N+1)/2\<close> elements.
\<close>

theorem kernel_io_counts:
  assumes "unat num_rows \<le> 65535" "tri (unat num_rows) \<le> length xs"
  shows "\<exists>s. SubmitDiagReciprocalKernel num_rows xs = Finished s
    \<and> length (k_out s) = unat num_rows \<and> length xs - length (k_in s) = tri (unat num_rows)"
  using assms by (simp add: kernel_run kernel_after_final length_diag_stream)

theorem kernel_io_counts_witness:
  "unat (3::size_t) \<le> 65535 \<and> tri (unat (3::size_t)) \<le> length spec_stream_3
   \<and> (\<exists>s. SubmitDiagReciprocalKernel 3 spec_stream_3 = Finished s
     \<and> length (k_out s) = unat (3::size_t) \<and> length spec_stream_3 - length (k_in s) = tri (unat (3::size_t)))"
proof -
  have h: "unat (3::size_t) \<le> 65535" "tri (unat (3::size_t)) \<le> length spec_stream_3"
    by (simp_all add: tri_def spec_stream_3_def)
  show ?thesis using h kernel_io_counts [OF h] by blast
qed

text \<open>
  C4: for sizes up to 65535 the 64-bit product \<open>num_rows * (num_rows + 1) / 2\<close>
  neither wraps nor loses bits when it is stored into the 32-bit
  \<open>int total_reads\<close>: its signed value is the triangular number.
\<close>

theorem total_reads_exact:
  assumes "unat num_rows \<le> 65535"
  shows "sint (total_reads num_rows) = int (tri (unat num_rows))"
  using assms tri_bound [OF assms] by (simp add: total_reads_small width_simps)

theorem total_reads_exact_witness:
  "unat (65535::size_t) \<le> 65535 \<and> sint (total_reads 65535) = int (tri (unat (65535::size_t)))"
  using total_reads_exact [of 65535] by simp

text \<open>
  C5: at \<open>num_rows = 65536\<close> the element count \<open>2147516416\<close> does not fit in an
  \<open>int\<close>: \<open>total_reads\<close> becomes negative, the loop body never runs, and the
  kernel finishes at once having read nothing and written nothing, instead of
  the 65536 values the contract promises.
\<close>

theorem total_reads_overflow:
  "sint (total_reads (65536::size_t)) < 0
   \<and> SubmitDiagReciprocalKernel 65536 xs = Finished (kernel_init xs)"
proof -
  have neg: "sint (total_reads (65536::size_t)) < 0" by (simp add: total_reads_def)
  then have "\<not> k_i (kernel_init xs) <s total_reads 65536"
    by (simp add: kernel_init_def word_sless_alt)
  with neg show ?thesis
    by (simp add: SubmitDiagReciprocalKernel_def kernel_loop.simps [of _ _ "kernel_init xs"])
qed

text \<open>
  C6: for every \<open>num_rows\<close>, overflowing or not, the loop terminates after
  exactly \<open>T = max 0 total_reads\<close> reads: it finishes with the first \<open>T\<close>
  elements consumed when the pipe holds that many, and otherwise blocks on a read
  of the empty pipe after consuming everything.
\<close>

theorem kernel_reads_total:
  "(nat (sint (total_reads num_rows)) \<le> length xs \<longrightarrow>
      (\<exists>s. SubmitDiagReciprocalKernel num_rows xs = Finished s
           \<and> k_in s = drop (nat (sint (total_reads num_rows))) xs))
   \<and> (length xs < nat (sint (total_reads num_rows)) \<longrightarrow>
      (\<exists>s. SubmitDiagReciprocalKernel num_rows xs = Blocked s \<and> k_in s = []))"
  using kernel_loop_consumes [of "total_reads num_rows" "kernel_init xs" num_rows]
  by (simp add: SubmitDiagReciprocalKernel_def kernel_init_def)

theorem kernel_reads_total_witness:
  "nat (sint (total_reads (3::size_t))) \<le> length spec_stream_3
   \<and> (\<exists>s. SubmitDiagReciprocalKernel 3 spec_stream_3 = Finished s
        \<and> k_in s = drop (nat (sint (total_reads (3::size_t)))) spec_stream_3)
   \<and> length spec_stream_1 < nat (sint (total_reads (3::size_t)))
   \<and> (\<exists>s. SubmitDiagReciprocalKernel 3 spec_stream_1 = Blocked s \<and> k_in s = [])"
proof -
  have t: "nat (sint (total_reads (3::size_t))) = 6" by (simp add: total_reads_def)
  have a: "nat (sint (total_reads (3::size_t))) \<le> length spec_stream_3"
    using t by (simp add: spec_stream_3_def)
  have b: "length spec_stream_1 < nat (sint (total_reads (3::size_t)))"
    using t by (simp add: spec_stream_1_def)
  show ?thesis
    using a b kernel_reads_total [of 3 spec_stream_3] kernel_reads_total [of 3 spec_stream_1] by blast
qed

text \<open>
  C7: a pipe that holds fewer than \<open>N(N+1)/2\<close> elements is not detected: the
  kernel consumes all of them, writes the reciprocals of the diagonal elements
  among them, and then blocks for ever on the next read.
\<close>

theorem kernel_blocks_on_short_input:
  assumes "unat num_rows \<le> 65535" "length xs < tri (unat num_rows)"
  shows "\<exists>s. SubmitDiagReciprocalKernel num_rows xs = Blocked s
    \<and> k_in s = [] \<and> k_out s = diag_stream (unat num_rows) xs \<and> k_i s = word_of_nat (length xs)"
  using assms by (simp add: kernel_run kernel_after_fields)

theorem kernel_blocks_on_short_input_witness:
  "unat (3::size_t) \<le> 65535 \<and> length spec_stream_1 < tri (unat (3::size_t))
   \<and> (\<exists>s. SubmitDiagReciprocalKernel 3 spec_stream_1 = Blocked s
     \<and> k_in s = [] \<and> k_out s = diag_stream (unat (3::size_t)) spec_stream_1
     \<and> k_i s = word_of_nat (length spec_stream_1))"
proof -
  have h: "unat (3::size_t) \<le> 65535" "length spec_stream_1 < tri (unat (3::size_t))"
    by (simp_all add: tri_def spec_stream_1_def)
  show ?thesis using h kernel_blocks_on_short_input [OF h] by blast
qed

text \<open>
  C18: well-typed counters (type soundness of the loop state): the initial
  counters \<open>i = 0, row = col = 1\<close> are well-formed, and one iteration of the
  loop body, taken while \<open>i < total_reads\<close>, maps well-formed counters to
  well-formed counters, for every state, whatever the pipe holds.
\<close>

theorem kernel_counters_wf:
  assumes N: "unat num_rows \<le> 65535"
  shows "counters_wf (unat num_rows) (kernel_init xs)
    \<and> (counters_wf (unat num_rows) s \<longrightarrow> k_i s <s total_reads num_rows
        \<longrightarrow> kernel_body num_rows s = Some t \<longrightarrow> counters_wf (unat num_rows) t)"
proof
  have "at_iter (unat num_rows) 0 (kernel_init xs)"
    by (simp add: at_iter_def counters_at_def kernel_init_def)
  then show "counters_wf (unat num_rows) (kernel_init xs)"
    using counters_wf_at_iter [OF N] by blast
  show "counters_wf (unat num_rows) s \<longrightarrow> k_i s <s total_reads num_rows
        \<longrightarrow> kernel_body num_rows s = Some t \<longrightarrow> counters_wf (unat num_rows) t"
    using advance_counters_wf [OF N] kernel_body_counters counters_wf_cong by metis
qed

theorem kernel_counters_wf_witness:
  "unat (3::size_t) \<le> 65535 \<and> counters_wf 3 (kernel_init spec_stream_3)
   \<and> k_i (kernel_init spec_stream_3) <s total_reads 3
   \<and> kernel_body 3 (kernel_init spec_stream_3)
       = Some \<lparr>k_i = 1, k_row = 1, k_col = 2, k_in = tl spec_stream_3, k_out = [1 / 2]\<rparr>
   \<and> counters_wf 3 \<lparr>k_i = 1, k_row = 1, k_col = 2, k_in = tl spec_stream_3, k_out = [1 / 2 :: real]\<rparr>"
proof -
  have h: "unat (3::size_t) \<le> 65535" by simp
  have w: "counters_wf 3 (kernel_init spec_stream_3)" by code_simp
  have l: "k_i (kernel_init spec_stream_3) <s total_reads 3" by code_simp
  have b: "kernel_body 3 (kernel_init spec_stream_3)
       = Some \<lparr>k_i = 1, k_row = 1, k_col = 2, k_in = tl spec_stream_3, k_out = [1 / 2]\<rparr>" by code_simp
  show ?thesis using h w l b kernel_counters_wf [OF h, of spec_stream_3 "kernel_init spec_stream_3"] by simp
qed

end
