(* ===== verification/Pipes.thy ===== *)
theory Pipes
  imports Prelude
begin

text \<open>
  The two SYCL pipes of the kernel, \<open>RMatrixInPipe\<close> and
  \<open>RDiagRecipVectorOutPipe\<close>, are instances of the SYCL FPGA pipe template,
  a library the sources only call.  Following the specification (sections 5
  and 6) a pipe is a point-to-point FIFO with bounded buffering: \<open>read()\<close>
  blocks while the pipe is empty and \<open>write()\<close> blocks while it is full.
  Here a pipe is its buffer and its capacity; a read or write that would block
  returns \<open>None\<close>, and the caller (a step of theory \<open>Pipeline\<close>) is then not
  enabled.  \<open>pcap\<close> is the depth of the buffer the implementation provides.
  The SYCL capacity parameter is only a minimum, so the actual depth is at least
  the requested one, and a bound stated with \<open>pcap\<close> is a bound in the actual
  depth.  A pipe of depth zero, which SYCL allows and which still transfers data
  by hand-over, is not modelled: the liveness theorems assume a depth of at least
  one.
\<close>

record 'a pipe =
  pbuf :: "'a list"
  pcap :: nat

definition pipe_empty :: "nat \<Rightarrow> 'a pipe" where
  "pipe_empty c = \<lparr>pbuf = [], pcap = c\<rparr>"

definition pipe_read :: "'a pipe \<Rightarrow> ('a \<times> 'a pipe) option" where
  "pipe_read p = (case pbuf p of [] \<Rightarrow> None | x # xs \<Rightarrow> Some (x, p\<lparr>pbuf := xs\<rparr>))"

definition pipe_write :: "'a \<Rightarrow> 'a pipe \<Rightarrow> 'a pipe option" where
  "pipe_write x p = (if length (pbuf p) < pcap p then Some (p\<lparr>pbuf := pbuf p @ [x]\<rparr>) else None)"

definition pipe_ok :: "'a pipe \<Rightarrow> bool" where
  "pipe_ok p = (length (pbuf p) \<le> pcap p)"

fun pipe_write_all :: "'a list \<Rightarrow> 'a pipe \<Rightarrow> 'a pipe option" where
  "pipe_write_all [] p = Some p"
| "pipe_write_all (x # xs) p = (case pipe_write x p of None \<Rightarrow> None | Some p' \<Rightarrow> pipe_write_all xs p')"

fun pipe_read_n :: "nat \<Rightarrow> 'a pipe \<Rightarrow> ('a list \<times> 'a pipe) option" where
  "pipe_read_n 0 p = Some ([], p)"
| "pipe_read_n (Suc k) p = (case pipe_read p of None \<Rightarrow> None
     | Some (x, p') \<Rightarrow> map_option (\<lambda>(xs, q). (x # xs, q)) (pipe_read_n k p'))"

subsection \<open>Behaviour of one read and one write\<close>

lemma pipe_read_Some:
  "(pipe_read p = Some (x, p')) = (pbuf p = x # pbuf p' \<and> pcap p' = pcap p \<and> pipe.more p' = pipe.more p)"
  by (cases p; cases p') (auto simp: pipe_read_def split: list.splits)

lemma pipe_read_None: "(pipe_read p = None) = (pbuf p = [])"
  by (simp add: pipe_read_def split: list.splits)

lemma pipe_write_Some:
  "(pipe_write x p = Some p') = (length (pbuf p) < pcap p \<and> p' = p\<lparr>pbuf := pbuf p @ [x]\<rparr>)"
  by (auto simp: pipe_write_def)

lemma pipe_write_None: "(pipe_write x p = None) = (pcap p \<le> length (pbuf p))"
  by (simp add: pipe_write_def)

lemma pipe_read_ok: "pipe_ok p \<Longrightarrow> pipe_read p = Some (x, p') \<Longrightarrow> pipe_ok p'"
  by (simp add: pipe_ok_def pipe_read_Some)

lemma pipe_write_ok: "pipe_write x p = Some p' \<Longrightarrow> pipe_ok p'"
  by (auto simp: pipe_ok_def pipe_write_Some)

lemma pipe_write_all_buf:
  "pipe_write_all xs p = Some p' \<Longrightarrow> pbuf p' = pbuf p @ xs \<and> pcap p' = pcap p"
  by (induction xs arbitrary: p) (auto simp: pipe_write_Some split: option.splits)

lemma pipe_write_all_fits:
  "length (pbuf p) + length xs \<le> pcap p \<Longrightarrow> \<exists>p'. pipe_write_all xs p = Some p'"
  by (induction xs arbitrary: p) (auto simp: pipe_write_def)

lemma pipe_read_n_buf:
  "k \<le> length (pbuf p) \<Longrightarrow> pipe_read_n k p = Some (take k (pbuf p), p\<lparr>pbuf := drop k (pbuf p)\<rparr>)"
proof (induction k arbitrary: p)
  case 0
  then show ?case by simp
next
  case (Suc k)
  then obtain x xs where b: "pbuf p = x # xs" by (cases "pbuf p") auto
  with Suc show ?case by (simp add: pipe_read_def)
qed

subsection \<open>Properties of the pipe\<close>

text \<open>
  A pipe keeps its capacity bound: from a state within capacity, every
  read and every write that is performed (does not block) leaves the pipe within
  capacity, and a write blocks exactly when the pipe is full, a read exactly when
  it is empty.
\<close>

lemma pipe_bounded:
  assumes "pipe_ok p"
  shows "(pipe_read p = Some (x, p') \<longrightarrow> pipe_ok p')
    \<and> (pipe_write y p = Some p'' \<longrightarrow> pipe_ok p'')
    \<and> (pipe_write y p = None \<longleftrightarrow> length (pbuf p) = pcap p)
    \<and> (pipe_read p = None \<longleftrightarrow> pbuf p = [])"
  using assms pipe_read_ok pipe_write_ok
  by (auto simp: pipe_ok_def pipe_write_None pipe_read_None)

text \<open>
  A pipe is first-in first-out: writing the values \<open>xs\<close> into a pipe that
  has room for them and then reading as many values returns \<open>xs\<close>, in order,
  after the values that were already buffered, and leaves the pipe as it was.
\<close>

lemma pipe_fifo_roundtrip:
  assumes "length (pbuf p) + length xs \<le> pcap p"
  shows "\<exists>p'. pipe_write_all xs p = Some p'
    \<and> pipe_read_n (length (pbuf p) + length xs) p' = Some (pbuf p @ xs, p'\<lparr>pbuf := []\<rparr>)"
proof -
  obtain p' where w: "pipe_write_all xs p = Some p'" using pipe_write_all_fits [OF assms] by blast
  then have b: "pbuf p' = pbuf p @ xs" using pipe_write_all_buf by blast
  have "pipe_read_n (length (pbuf p) + length xs) p' = Some (pbuf p @ xs, p'\<lparr>pbuf := []\<rparr>)"
    using pipe_read_n_buf [of "length (pbuf p) + length xs" p'] b by simp
  with w show ?thesis by blast
qed

end
