(* ===== verification/Pipeline.thy ===== *)
theory Pipeline
  imports DiagReciprocal Pipes
begin

text \<open>
  The kernel inside its pipeline.  Section 5 of the specification places
  \<open>SubmitDiagReciprocalKernel\<close> between the QR stage, which writes the packed
  factor into \<open>RMatrixInPipe\<close>, and the back-substitution stage, which reads
  the reciprocals from \<open>RDiagRecipVectorOutPipe\<close>; the three run
  concurrently and synchronise only through the two bounded pipes.  Here the
  kernel's loop (lines 25--39 of \<^verbatim>\<open>DiagReciprocal.hpp\<close>) is cut at its
  blocking points into the program counter \<open>kpc\<close>: the loop test, the
  \<open>read()\<close> of line 27, the \<open>write()\<close> of line 30 and the counter update of
  lines 33--38, which is the \<open>advance_counters\<close> of the sequential model.  A
  producer writes a given sequence of elements into the input pipe and a
  consumer drains the output pipe.  \<open>pstep\<close> is any step of any of the three,
  \<open>reach\<close> the states reachable from the initial one; \<open>run_sched\<close> is one
  executable schedule of it.  The invariant \<open>pinv_at\<close> relates a state to the
  simulation state of theory \<open>DiagReciprocal\<close> after \<open>j\<close> reads, and
  \<open>pmeasure\<close> decreases on every step.
\<close>

datatype 'f kpc = AtTest | AtRead | AtWrite 'f | AtAdvance | AtDone

record 'f psys = kcounters +
  s_pc :: "'f kpc"
  s_prod :: "'f ComplexType list"
  s_inp :: "'f ComplexType pipe"
  s_outp :: "'f pipe"
  s_cons :: "'f list"

definition psys_init :: "nat \<Rightarrow> nat \<Rightarrow> 'f ComplexType list \<Rightarrow> 'f psys" where
  "psys_init cin cout xs = \<lparr>k_i = 0, k_row = 1, k_col = 1, s_pc = AtTest, s_prod = xs,
     s_inp = pipe_empty cin, s_outp = pipe_empty cout, s_cons = []\<rparr>"

definition kernel_step :: "size_t \<Rightarrow> ('f::{one, inverse}) psys \<Rightarrow> 'f psys option" where
  "kernel_step num_rows s =
     (case s_pc s of
        AtTest \<Rightarrow> Some (s\<lparr>s_pc := (if k_i s <s total_reads num_rows then AtRead else AtDone)\<rparr>)
      | AtRead \<Rightarrow>
          (case pipe_read (s_inp s) of
             None \<Rightarrow> None
           | Some (entry, p) \<Rightarrow>
               Some (s\<lparr>s_inp := p,
                       s_pc := (if k_row s = k_col s then AtWrite (1 / c_real entry) else AtAdvance)\<rparr>))
      | AtWrite v \<Rightarrow>
          (case pipe_write v (s_outp s) of
             None \<Rightarrow> None
           | Some p \<Rightarrow> Some (s\<lparr>s_outp := p, s_pc := AtAdvance\<rparr>))
      | AtAdvance \<Rightarrow> Some ((advance_counters num_rows s)\<lparr>s_pc := AtTest\<rparr>)
      | AtDone \<Rightarrow> None)"

definition producer_step :: "'f psys \<Rightarrow> 'f psys option" where
  "producer_step s =
     (case s_prod s of
        [] \<Rightarrow> None
      | x # xs \<Rightarrow>
          (case pipe_write x (s_inp s) of
             None \<Rightarrow> None
           | Some p \<Rightarrow> Some (s\<lparr>s_prod := xs, s_inp := p\<rparr>)))"

definition consumer_step :: "'f psys \<Rightarrow> 'f psys option" where
  "consumer_step s =
     (case pipe_read (s_outp s) of
        None \<Rightarrow> None
      | Some (v, p) \<Rightarrow> Some (s\<lparr>s_outp := p, s_cons := s_cons s @ [v]\<rparr>))"

inductive pstep :: "size_t \<Rightarrow> ('f::{one, inverse}) psys \<Rightarrow> 'f psys \<Rightarrow> bool" for num_rows where
  kernel: "kernel_step num_rows s = Some t \<Longrightarrow> pstep num_rows s t"
| producer: "producer_step s = Some t \<Longrightarrow> pstep num_rows s t"
| consumer: "consumer_step s = Some t \<Longrightarrow> pstep num_rows s t"

inductive reach :: "size_t \<Rightarrow> nat \<Rightarrow> nat \<Rightarrow> ('f::{one, inverse}) ComplexType list \<Rightarrow> 'f psys \<Rightarrow> bool"
  for num_rows cin cout xs where
  init: "reach num_rows cin cout xs (psys_init cin cout xs)"
| step: "reach num_rows cin cout xs s \<Longrightarrow> pstep num_rows s t \<Longrightarrow> reach num_rows cin cout xs t"

definition terminal :: "'f psys \<Rightarrow> bool" where
  "terminal s = (s_pc s = AtDone \<and> pbuf (s_outp s) = [])"

fun pc_weight :: "'f kpc \<Rightarrow> nat" where
  "pc_weight AtTest = 5"
| "pc_weight AtRead = 4"
| "pc_weight (AtWrite v) = 3"
| "pc_weight AtAdvance = 1"
| "pc_weight AtDone = 0"

definition pmeasure :: "size_t \<Rightarrow> 'f psys \<Rightarrow> nat" where
  "pmeasure num_rows s = 5 * nat (sint (total_reads num_rows) - sint (k_i s)) + pc_weight (s_pc s)
     + 2 * length (s_prod s) + length (pbuf (s_inp s)) + length (pbuf (s_outp s))"

definition sched_step :: "size_t \<Rightarrow> ('f::{one, inverse}) psys \<Rightarrow> 'f psys option" where
  "sched_step num_rows s =
     (case kernel_step num_rows s of
        Some t \<Rightarrow> Some t
      | None \<Rightarrow> (case producer_step s of Some t \<Rightarrow> Some t | None \<Rightarrow> consumer_step s))"

fun run_sched :: "nat \<Rightarrow> size_t \<Rightarrow> ('f::{one, inverse}) psys \<Rightarrow> 'f psys" where
  "run_sched 0 num_rows s = s"
| "run_sched (Suc k) num_rows s =
     (case sched_step num_rows s of None \<Rightarrow> s | Some t \<Rightarrow> run_sched k num_rows t)"

definition pinv_at :: "nat \<Rightarrow> nat \<Rightarrow> nat \<Rightarrow> ('f::{one, inverse}) ComplexType list \<Rightarrow> nat \<Rightarrow> 'f psys \<Rightarrow> bool" where
  "pinv_at n cin cout xs j s =
     (j \<le> length xs \<and> drop j xs = pbuf (s_inp s) @ s_prod s
      \<and> pcap (s_inp s) = cin \<and> pcap (s_outp s) = cout
      \<and> pipe_ok (s_inp s) \<and> pipe_ok (s_outp s)
      \<and> (case s_pc s of
           AtTest \<Rightarrow> j \<le> tri n \<and> at_iter n j s \<and> s_cons s @ pbuf (s_outp s) = diag_stream n (take j xs)
         | AtRead \<Rightarrow> j < tri n \<and> at_iter n j s \<and> s_cons s @ pbuf (s_outp s) = diag_stream n (take j xs)
         | AtWrite v \<Rightarrow> 0 < j \<and> j \<le> tri n \<and> at_iter n (j - 1) s
             \<and> s_cons s @ pbuf (s_outp s) @ [v] = diag_stream n (take j xs)
         | AtAdvance \<Rightarrow> 0 < j \<and> j \<le> tri n \<and> at_iter n (j - 1) s
             \<and> s_cons s @ pbuf (s_outp s) = diag_stream n (take j xs)
         | AtDone \<Rightarrow> j = tri n \<and> at_iter n j s \<and> s_cons s @ pbuf (s_outp s) = diag_stream n (take j xs)))"

inductive_cases pstep_cases: "pstep num_rows s t"

lemma advance_counters_psys [simp]:
  "s_pc (advance_counters m s) = s_pc s" "s_prod (advance_counters m s) = s_prod s"
  "s_inp (advance_counters m s) = s_inp s" "s_outp (advance_counters m s) = s_outp s"
  "s_cons (advance_counters m s) = s_cons s"
  by (simp_all add: advance_counters_def Let_def)

lemma at_iter_i: "at_iter n j s \<Longrightarrow> k_i s = word_of_nat j"
  by (simp add: at_iter_def counters_at_def split: prod.splits)

lemma pinv_init: "pinv_at n cin cout xs 0 (psys_init cin cout xs)"
  by (simp add: pinv_at_def psys_init_def pipe_empty_def pipe_ok_def at_iter_def counters_at_def diag_stream_def)

lemma producer_step_pinv:
  "pinv_at n cin cout xs j s \<Longrightarrow> producer_step s = Some t \<Longrightarrow> pinv_at n cin cout xs j t"
  by (auto simp: pinv_at_def producer_step_def pipe_write_Some pipe_ok_def at_iter_def
      split: list.splits option.splits kpc.splits)

lemma consumer_step_pinv:
  "pinv_at n cin cout xs j s \<Longrightarrow> consumer_step s = Some t \<Longrightarrow> pinv_at n cin cout xs j t"
  by (auto simp: pinv_at_def consumer_step_def pipe_read_Some pipe_ok_def at_iter_def
      split: option.splits kpc.splits)

lemma pinv_atD:
  "pinv_at n cin cout xs j s \<Longrightarrow> j \<le> length xs \<and> drop j xs = pbuf (s_inp s) @ s_prod s
      \<and> pcap (s_inp s) = cin \<and> pcap (s_outp s) = cout \<and> pipe_ok (s_inp s) \<and> pipe_ok (s_outp s)"
  by (simp add: pinv_at_def)

lemma kernel_step_pinv:
  assumes N: "unat num_rows \<le> 65535" and I: "pinv_at (unat num_rows) cin cout xs j s"
    and K: "kernel_step num_rows s = Some t"
  shows "\<exists>j'. pinv_at (unat num_rows) cin cout xs j' t"
proof (cases "s_pc s")
  case AtTest
  with I have j: "j \<le> tri (unat num_rows)" and a: "at_iter (unat num_rows) j s"
    by (simp_all add: pinv_at_def)
  have test: "(k_i s <s total_reads num_rows) = (j < tri (unat num_rows))"
    using at_iter_i [OF a] N j by (simp add: total_reads_sless)
  show ?thesis
  proof (cases "j < tri (unat num_rows)")
    case True
    with K AtTest test have "t = s\<lparr>s_pc := AtRead\<rparr>" by (simp add: kernel_step_def)
    with I AtTest True have "pinv_at (unat num_rows) cin cout xs j t"
      by (simp add: pinv_at_def at_iter_def)
    then show ?thesis ..
  next
    case False
    with K AtTest test have "t = s\<lparr>s_pc := AtDone\<rparr>" by (simp add: kernel_step_def)
    with I AtTest False j have "pinv_at (unat num_rows) cin cout xs j t"
      by (simp add: pinv_at_def at_iter_def)
    then show ?thesis ..
  qed
next
  case AtRead
  with I have j: "j < tri (unat num_rows)" and a: "at_iter (unat num_rows) j s"
    and out: "s_cons s @ pbuf (s_outp s) = diag_stream (unat num_rows) (take j xs)"
    by (simp_all add: pinv_at_def)
  from K AtRead obtain e p where r: "pipe_read (s_inp s) = Some (e, p)"
    by (auto simp: kernel_step_def split: option.splits)
  then have b: "pbuf (s_inp s) = e # pbuf p" "pcap p = pcap (s_inp s)" by (simp_all add: pipe_read_Some)
  from I b have d: "drop j xs = e # (pbuf p @ s_prod s)" by (simp add: pinv_at_def)
  then have jl: "j < length xs" by (metis drop_all list.distinct(1) not_le_imp_less)
  from d jl have e: "e = xs ! j" and d': "drop (Suc j) xs = pbuf p @ s_prod s"
    by (simp_all add: Cons_nth_drop_Suc [symmetric])
  have diag: "(k_row s = k_col s) = is_diag (tri_positions (unat num_rows) ! j)"
    using counters_step [OF N j a] by blast
  have ds: "diag_stream (unat num_rows) (take (Suc j) xs) = diag_stream (unat num_rows) (take j xs)
      @ (if is_diag (tri_positions (unat num_rows) ! j) then [1 / c_real (xs ! j)] else [])"
    using j jl by (rule diag_stream_take_Suc)
  have t: "t = s\<lparr>s_inp := p, s_pc := (if k_row s = k_col s then AtWrite (1 / c_real e) else AtAdvance)\<rparr>"
    using K AtRead r by (simp add: kernel_step_def)
  have ok: "pipe_ok p" using I r by (meson pinv_atD pipe_read_ok)
  have "pinv_at (unat num_rows) cin cout xs (Suc j) t"
    using I a jl d' ok b j out ds diag e unfolding t
    by (simp add: pinv_at_def at_iter_def)
  then show ?thesis ..
next
  case (AtWrite v)
  from K AtWrite obtain p where w: "pipe_write v (s_outp s) = Some p"
    by (auto simp: kernel_step_def split: option.splits)
  have t: "t = s\<lparr>s_outp := p, s_pc := AtAdvance\<rparr>" using K AtWrite w by (simp add: kernel_step_def)
  have "pinv_at (unat num_rows) cin cout xs j t"
    using I AtWrite w pipe_write_ok [OF w] unfolding t
    by (simp add: pinv_at_def at_iter_def pipe_write_Some)
  then show ?thesis ..
next
  case AtAdvance
  with I have j: "0 < j" "j \<le> tri (unat num_rows)" and a: "at_iter (unat num_rows) (j - 1) s"
    by (simp_all add: pinv_at_def)
  have "at_iter (unat num_rows) (Suc (j - 1)) (advance_counters num_rows s)"
    using counters_step [OF N _ a] j by simp
  then have a': "at_iter (unat num_rows) j ((advance_counters num_rows s)\<lparr>s_pc := AtTest\<rparr>)"
    using j by (simp add: at_iter_def)
  have t: "t = (advance_counters num_rows s)\<lparr>s_pc := AtTest\<rparr>" using K AtAdvance by (simp add: kernel_step_def)
  have "pinv_at (unat num_rows) cin cout xs j t"
    using I AtAdvance j a' unfolding t by (simp add: pinv_at_def)
  then show ?thesis ..
next
  case AtDone
  with K show ?thesis by (simp add: kernel_step_def)
qed

lemma pstep_pinv:
  assumes N: "unat num_rows \<le> 65535" and I: "pinv_at (unat num_rows) cin cout xs j s"
    and S: "pstep num_rows s t"
  shows "\<exists>j'. pinv_at (unat num_rows) cin cout xs j' t"
  using S
proof cases
  case kernel
  then show ?thesis using N I by (rule kernel_step_pinv [rotated 2])
next
  case producer
  then show ?thesis using I producer_step_pinv by blast
next
  case consumer
  then show ?thesis using I consumer_step_pinv by blast
qed

lemma reach_pinv:
  assumes N: "unat num_rows \<le> 65535"
  shows "reach num_rows cin cout xs s \<Longrightarrow> \<exists>j. pinv_at (unat num_rows) cin cout xs j s"
proof (induction rule: reach.induct)
  case init
  show ?case using pinv_init by blast
next
  case (step s t)
  then show ?case using pstep_pinv [OF N] by blast
qed

lemma kernel_step_measure:
  assumes N: "unat num_rows \<le> 65535" and I: "pinv_at (unat num_rows) cin cout xs j s"
    and K: "kernel_step num_rows s = Some t"
  shows "pmeasure num_rows t < pmeasure num_rows s"
proof (cases "s_pc s")
  case AtAdvance
  with I have j: "0 < j" "j \<le> tri (unat num_rows)" and a: "at_iter (unat num_rows) (j - 1) s"
    by (simp_all add: pinv_at_def)
  have lt: "(word_of_nat (j - 1) <s total_reads num_rows) = (j - 1 < tri (unat num_rows))"
    using j by (intro total_reads_sless [OF N]) simp
  have "k_i s <s total_reads num_rows"
    using at_iter_i [OF a] lt j by simp
  then have "sint (k_i s + 1) = sint (k_i s) + 1" by (rule sint_incr)
  moreover have "sint (k_i s) < sint (total_reads num_rows)"
    using \<open>k_i s <s total_reads num_rows\<close> by (simp add: word_sless_alt)
  moreover have "t = (advance_counters num_rows s)\<lparr>s_pc := AtTest\<rparr>"
    using K AtAdvance by (simp add: kernel_step_def)
  ultimately show ?thesis using AtAdvance by (simp add: pmeasure_def)
qed (use K in \<open>auto simp: kernel_step_def pmeasure_def pipe_read_Some pipe_write_Some split: option.splits if_splits\<close>)

lemma pstep_measure:
  assumes N: "unat num_rows \<le> 65535" and I: "pinv_at (unat num_rows) cin cout xs j s"
    and S: "pstep num_rows s t"
  shows "pmeasure num_rows t < pmeasure num_rows s"
  using S
proof cases
  case kernel
  then show ?thesis using N I by (rule kernel_step_measure [rotated 2])
next
  case producer
  then show ?thesis
    by (auto simp: producer_step_def pmeasure_def pipe_write_Some split: list.splits option.splits)
next
  case consumer
  then show ?thesis
    by (auto simp: consumer_step_def pmeasure_def pipe_read_Some split: option.splits)
qed

lemma pinv_cons_prefix:
  "pinv_at n cin cout xs j s \<Longrightarrow> \<exists>r. diag_stream n xs = s_cons s @ r"
proof -
  assume I: "pinv_at n cin cout xs j s"
  then have "\<exists>r. diag_stream n (take j xs) = s_cons s @ r"
    by (cases "s_pc s") (auto simp: pinv_at_def dest: sym)
  with diag_stream_prefix [of n xs j] show ?thesis by auto
qed

lemma pinv_terminal:
  assumes L: "tri n \<le> length xs" and I: "pinv_at n cin cout xs j s" and T: "terminal s"
  shows "j = tri n \<and> pbuf (s_inp s) @ s_prod s = drop (tri n) xs \<and> s_cons s = diag_stream n xs
    \<and> at_iter n (tri n) s"
proof -
  from I T have j: "j = tri n" and a: "at_iter n j s"
    and c: "s_cons s = diag_stream n (take j xs)" and d: "drop j xs = pbuf (s_inp s) @ s_prod s"
    by (auto simp: pinv_at_def terminal_def)
  with diag_stream_take_all [of n xs] show ?thesis by simp
qed

lemma pinv_stuck:
  assumes ci: "1 \<le> cin" and co: "1 \<le> cout"
    and I: "pinv_at n cin cout xs j s" and S: "\<not> (\<exists>t. pstep num_rows s t)"
  shows "terminal s \<or> (s_pc s = AtRead \<and> pbuf (s_inp s) = [] \<and> s_prod s = []
    \<and> pbuf (s_outp s) = [] \<and> j = length xs)"
proof -
  have k: "kernel_step num_rows s = None" and p: "producer_step s = None" and c: "consumer_step s = None"
    using S pstep.intros by (metis option.exhaust)+
  from c have out: "pbuf (s_outp s) = []"
    by (cases "pbuf (s_outp s)") (auto simp: consumer_step_def pipe_read_def)
  show ?thesis
  proof (cases "s_pc s")
    case AtRead
    from k AtRead have inp: "pbuf (s_inp s) = []"
      by (cases "pbuf (s_inp s)") (auto simp: kernel_step_def pipe_read_def)
    with I ci p have prod: "s_prod s = []"
      by (cases "s_prod s") (auto simp: producer_step_def pipe_write_def pinv_at_def)
    from I inp prod have "j = length xs" by (simp add: pinv_at_def)
    with AtRead inp prod out show ?thesis by simp
  next
    case (AtWrite v)
    with k have "pcap (s_outp s) \<le> length (pbuf (s_outp s))"
      by (auto simp: kernel_step_def pipe_write_def split: if_splits)
    with I co out show ?thesis by (simp add: pinv_at_def)
  next
    case AtDone
    with out show ?thesis by (simp add: terminal_def)
  qed (use k in \<open>simp_all add: kernel_step_def\<close>)
qed

lemma pinv_progress:
  assumes ci: "1 \<le> cin" and co: "1 \<le> cout" and L: "tri n \<le> length xs"
    and I: "pinv_at n cin cout xs j s" and T: "\<not> terminal s"
  shows "\<exists>t. pstep num_rows s t"
proof (rule ccontr)
  assume "\<not> (\<exists>t. pstep num_rows s t)"
  with pinv_stuck [OF ci co I] T have "s_pc s = AtRead" "j = length xs" by blast+
  with I L show False by (simp add: pinv_at_def)
qed

lemma reach_to_stuck:
  assumes N: "unat num_rows \<le> 65535"
  shows "reach num_rows cin cout xs s \<Longrightarrow>
    \<exists>t. (pstep num_rows)\<^sup>*\<^sup>* s t \<and> reach num_rows cin cout xs t \<and> \<not> (\<exists>u. pstep num_rows t u)"
proof (induction "pmeasure num_rows s" arbitrary: s rule: less_induct)
  case less
  show ?case
  proof (cases "\<exists>u. pstep num_rows s u")
    case False
    with less.prems show ?thesis by blast
  next
    case True
    then obtain t where S: "pstep num_rows s t" by blast
    obtain j where I: "pinv_at (unat num_rows) cin cout xs j s" using reach_pinv [OF N less.prems] by blast
    have R: "reach num_rows cin cout xs t" using less.prems S by (rule reach.step)
    have "pmeasure num_rows t < pmeasure num_rows s" using N I S by (rule pstep_measure)
    then obtain u where "(pstep num_rows)\<^sup>*\<^sup>* t u \<and> reach num_rows cin cout xs u \<and> \<not> (\<exists>v. pstep num_rows u v)"
      using less.hyps R by blast
    with S show ?thesis by (meson converse_rtranclp_into_rtranclp)
  qed
qed

lemma reach_to_terminal:
  assumes N: "unat num_rows \<le> 65535" and ci: "1 \<le> cin" and co: "1 \<le> cout"
    and L: "tri (unat num_rows) \<le> length xs" and R: "reach num_rows cin cout xs s"
  shows "\<exists>t. (pstep num_rows)\<^sup>*\<^sup>* s t \<and> reach num_rows cin cout xs t \<and> terminal t"
proof -
  obtain t where t: "(pstep num_rows)\<^sup>*\<^sup>* s t" "reach num_rows cin cout xs t" "\<not> (\<exists>u. pstep num_rows t u)"
    using reach_to_stuck [OF N R] by blast
  obtain j where "pinv_at (unat num_rows) cin cout xs j t" using reach_pinv [OF N t(2)] by blast
  then have "terminal t" using pinv_progress [OF ci co L] t(3) by blast
  with t show ?thesis by blast
qed

lemma pinv_reads:
  "pinv_at n cin cout xs j s \<Longrightarrow> j = length xs - length (pbuf (s_inp s)) - length (s_prod s)"
proof -
  assume I: "pinv_at n cin cout xs j s"
  then have "drop j xs = pbuf (s_inp s) @ s_prod s" "j \<le> length xs" by (simp_all add: pinv_at_def)
  then have "length xs - j = length (pbuf (s_inp s)) + length (s_prod s)" by (metis length_append length_drop)
  with \<open>j \<le> length xs\<close> show ?thesis by arith
qed

lemma pinv_produced:
  "pinv_at n cin cout xs j s \<Longrightarrow>
     length (diag_stream n (take j xs)) \<le> length (s_cons s) + length (pbuf (s_outp s)) + 1"
  by (cases "s_pc s") (auto simp: pinv_at_def dest: arg_cong [of _ _ length] sym)

lemma pstep_no_infinite_run:
  assumes N: "unat num_rows \<le> 65535"
  shows "\<not> (\<exists>f. f 0 = psys_init cin cout xs \<and> (\<forall>k. pstep num_rows (f k) (f (Suc k))))"
proof
  assume "\<exists>f. f 0 = psys_init cin cout xs \<and> (\<forall>k. pstep num_rows (f k) (f (Suc k)))"
  then obtain f where f0: "f 0 = psys_init cin cout xs" and fs: "\<forall>k. pstep num_rows (f k) (f (Suc k))"
    by blast
  have r: "reach num_rows cin cout xs (f k)" for k
    by (induction k) (use f0 fs in \<open>auto intro: reach.intros\<close>)
  have "pmeasure num_rows (f (Suc k)) < pmeasure num_rows (f k)" for k
    using reach_pinv [OF N r [of k]] fs pstep_measure [OF N] by blast
  then show False using no_descending_chain [of "\<lambda>k. pmeasure num_rows (f k)"] by blast
qed

lemma sched_step_pstep: "sched_step num_rows s = Some t \<Longrightarrow> pstep num_rows s t"
  by (auto simp: sched_step_def intro: pstep.intros split: option.splits)

lemma reach_run_sched:
  "reach num_rows cin cout xs s \<Longrightarrow> reach num_rows cin cout xs (run_sched k num_rows s)"
  by (induction k num_rows s rule: run_sched.induct)
     (auto intro: reach.step sched_step_pstep split: option.splits)

lemma sched_example_reach:
  "reach 3 1 1 spec_stream_3 (run_sched k 3 (psys_init 1 1 spec_stream_3))"
  by (intro reach_run_sched reach.init)

lemma sched_example_terminal: "terminal (run_sched 40 3 (psys_init 1 1 spec_stream_3))"
  by code_simp

subsection \<open>Properties of the pipeline\<close>

text \<open>
  C10: in every reachable state of the pipeline, whatever the interleaving of
  producer, kernel and consumer and whatever the pipe capacities, the values the
  consumer has received are a prefix of the specified output stream: nothing is
  reordered, duplicated or invented.
\<close>

theorem pipeline_output_in_order:
  assumes "unat num_rows \<le> 65535" "reach num_rows cin cout xs s"
  shows "\<exists>rest. diag_stream (unat num_rows) xs = s_cons s @ rest"
  using reach_pinv [OF assms] pinv_cons_prefix by blast

theorem pipeline_output_in_order_witness:
  "unat (3::size_t) \<le> 65535 \<and> reach 3 1 1 spec_stream_3 (run_sched 10 3 (psys_init 1 1 spec_stream_3))
   \<and> (\<exists>rest. diag_stream (unat (3::size_t)) spec_stream_3 = s_cons (run_sched 10 3 (psys_init 1 1 spec_stream_3)) @ rest)"
proof -
  have h: "unat (3::size_t) \<le> 65535" by simp
  show ?thesis using h sched_example_reach pipeline_output_in_order [OF h sched_example_reach] by blast
qed

text \<open>
  C11: the pipeline never deadlocks: with pipes of capacity at least one and a
  producer that supplies exactly one matrix, every reachable state that is not
  the final one (kernel done, output pipe drained) has an enabled step.
\<close>

theorem pipeline_no_deadlock:
  assumes "unat num_rows \<le> 65535" "1 \<le> cin" "1 \<le> cout" "length xs = tri (unat num_rows)"
    "reach num_rows cin cout xs s" "\<not> terminal s"
  shows "\<exists>t. pstep num_rows s t"
proof -
  obtain j where I: "pinv_at (unat num_rows) cin cout xs j s" using reach_pinv [OF assms(1,5)] by blast
  have L: "tri (unat num_rows) \<le> length xs" using assms(4) by simp
  show ?thesis by (rule pinv_progress [OF assms(2,3) L I assms(6)])
qed

theorem pipeline_no_deadlock_witness:
  "unat (3::size_t) \<le> 65535 \<and> (1::nat) \<le> 1 \<and> length spec_stream_3 = tri (unat (3::size_t))
   \<and> reach 3 1 1 spec_stream_3 (run_sched 10 3 (psys_init 1 1 spec_stream_3)) \<and> \<not> terminal (run_sched 10 3 (psys_init 1 1 spec_stream_3))
   \<and> (\<exists>t. pstep 3 (run_sched 10 3 (psys_init 1 1 spec_stream_3)) t)"
proof -
  have h: "unat (3::size_t) \<le> 65535" "(1::nat) \<le> 1" "length spec_stream_3 = tri (unat (3::size_t))"
    by (simp_all add: spec_stream_3_def tri_def)
  have nt: "\<not> terminal (run_sched 10 3 (psys_init 1 1 spec_stream_3))" by code_simp
  show ?thesis using h nt sched_example_reach pipeline_no_deadlock [OF h(1,2,2,3) sched_example_reach nt] by blast
qed

text \<open>
  C12: the concurrent pipeline refines the sequential kernel: in every final
  reachable state the consumer has received exactly what
  \<open>SubmitDiagReciprocalKernel\<close> writes, the counters agree with the
  kernel's final counters, and both pipes and the producer are empty.
\<close>

theorem pipeline_refines_kernel:
  assumes N: "unat num_rows \<le> 65535" and L: "length xs = tri (unat num_rows)"
    and R: "reach num_rows cin cout xs s" and T: "terminal s"
  shows "\<exists>k. SubmitDiagReciprocalKernel num_rows xs = Finished k
    \<and> s_cons s = k_out k \<and> k_i s = k_i k \<and> k_row s = k_row k \<and> k_col s = k_col k
    \<and> s_prod s = [] \<and> pbuf (s_inp s) = [] \<and> k_in k = []"
proof -
  obtain j where I: "pinv_at (unat num_rows) cin cout xs j s" using reach_pinv [OF N R] by blast
  have t: "s_prod s = [] \<and> pbuf (s_inp s) = [] \<and> s_cons s = diag_stream (unat num_rows) xs
      \<and> at_iter (unat num_rows) (tri (unat num_rows)) s"
    using pinv_terminal [OF eq_imp_le [OF sym [OF L]] I T] L by simp
  have k: "SubmitDiagReciprocalKernel num_rows xs = Finished (kernel_after (unat num_rows) xs (tri (unat num_rows)))"
    using N L by (simp add: kernel_run)
  have "at_iter (unat num_rows) (tri (unat num_rows)) (kernel_after (unat num_rows) xs (tri (unat num_rows)))"
    by (rule at_iter_kernel_after)
  with t have eq: "(k_i s, k_row s, k_col s) = (k_i (kernel_after (unat num_rows) xs (tri (unat num_rows))),
      k_row (kernel_after (unat num_rows) xs (tri (unat num_rows))),
      k_col (kernel_after (unat num_rows) xs (tri (unat num_rows))))"
    by (simp add: at_iter_def)
  show ?thesis
    using k t eq L by (auto simp: kernel_after_fields)
qed

theorem pipeline_refines_kernel_witness:
  "unat (3::size_t) \<le> 65535 \<and> length spec_stream_3 = tri (unat (3::size_t))
   \<and> reach 3 1 1 spec_stream_3 (run_sched 40 3 (psys_init 1 1 spec_stream_3)) \<and> terminal (run_sched 40 3 (psys_init 1 1 spec_stream_3))
   \<and> (\<exists>k. SubmitDiagReciprocalKernel 3 spec_stream_3 = Finished k
      \<and> s_cons (run_sched 40 3 (psys_init 1 1 spec_stream_3)) = k_out k \<and> k_i (run_sched 40 3 (psys_init 1 1 spec_stream_3)) = k_i k \<and> k_row (run_sched 40 3 (psys_init 1 1 spec_stream_3)) = k_row k
      \<and> k_col (run_sched 40 3 (psys_init 1 1 spec_stream_3)) = k_col k \<and> s_prod (run_sched 40 3 (psys_init 1 1 spec_stream_3)) = [] \<and> pbuf (s_inp (run_sched 40 3 (psys_init 1 1 spec_stream_3))) = [] \<and> k_in k = [])"
proof -
  have h: "unat (3::size_t) \<le> 65535" "length spec_stream_3 = tri (unat (3::size_t))"
    by (simp_all add: spec_stream_3_def tri_def)
  show ?thesis
    using h sched_example_reach sched_example_terminal
      pipeline_refines_kernel [OF h sched_example_reach sched_example_terminal] by blast
qed

text \<open>
  C13: total correctness of the pipeline: with pipes of capacity at least one
  and a producer that supplies exactly one matrix, no run from the initial state
  is infinite, and every reachable state in which no stage can move is final,
  with the consumer holding the whole specified output stream.  So every run,
  under every interleaving, ends after finitely many steps in a correct final
  state.
\<close>

theorem pipeline_terminates:
  assumes N: "unat num_rows \<le> 65535" and ci: "1 \<le> cin" and co: "1 \<le> cout"
    and L: "length xs = tri (unat num_rows)"
  shows "\<not> (\<exists>f. f 0 = psys_init cin cout xs \<and> (\<forall>k. pstep num_rows (f k) (f (Suc k))))
    \<and> (\<forall>s. reach num_rows cin cout xs s \<longrightarrow> \<not> (\<exists>t. pstep num_rows s t)
         \<longrightarrow> terminal s \<and> s_cons s = diag_stream (unat num_rows) xs)"
proof
  show "\<not> (\<exists>f. f 0 = psys_init cin cout xs \<and> (\<forall>k. pstep num_rows (f k) (f (Suc k))))"
    by (rule pstep_no_infinite_run [OF N])
  show "\<forall>s. reach num_rows cin cout xs s \<longrightarrow> \<not> (\<exists>t. pstep num_rows s t)
         \<longrightarrow> terminal s \<and> s_cons s = diag_stream (unat num_rows) xs"
  proof (intro allI impI)
    fix s assume R: "reach num_rows cin cout xs s" and S: "\<not> (\<exists>t. pstep num_rows s t)"
    obtain j where I: "pinv_at (unat num_rows) cin cout xs j s" using reach_pinv [OF N R] by blast
    have L': "tri (unat num_rows) \<le> length xs" using L by simp
    have T: "terminal s" using pinv_progress [OF ci co L' I] S by blast
    show "terminal s \<and> s_cons s = diag_stream (unat num_rows) xs"
      using T pinv_terminal [OF L' I T] by simp
  qed
qed

theorem pipeline_terminates_witness:
  "unat (3::size_t) \<le> 65535 \<and> (1::nat) \<le> 1 \<and> length spec_stream_3 = tri (unat (3::size_t))
   \<and> \<not> (\<exists>f. f 0 = psys_init 1 1 spec_stream_3 \<and> (\<forall>k. pstep 3 (f k) (f (Suc k))))
   \<and> reach 3 1 1 spec_stream_3 (run_sched 40 3 (psys_init 1 1 spec_stream_3)) \<and> \<not> (\<exists>t. pstep 3 (run_sched 40 3 (psys_init 1 1 spec_stream_3)) t)
   \<and> terminal (run_sched 40 3 (psys_init 1 1 spec_stream_3)) \<and> s_cons (run_sched 40 3 (psys_init 1 1 spec_stream_3)) = diag_stream (unat (3::size_t)) spec_stream_3"
proof -
  have h: "unat (3::size_t) \<le> 65535" "(1::nat) \<le> 1" "length spec_stream_3 = tri (unat (3::size_t))"
    by (simp_all add: spec_stream_3_def tri_def)
  have k: "kernel_step 3 (run_sched 40 3 (psys_init 1 1 spec_stream_3)) = None" by code_simp
  have p: "producer_step (run_sched 40 3 (psys_init 1 1 spec_stream_3)) = None" by code_simp
  have c: "consumer_step (run_sched 40 3 (psys_init 1 1 spec_stream_3)) = None" by code_simp
  have st: "\<not> (\<exists>t. pstep 3 (run_sched 40 3 (psys_init 1 1 spec_stream_3)) t)" using k p c by (auto elim: pstep_cases)
  have "\<not> (\<exists>f. f 0 = psys_init 1 1 spec_stream_3 \<and> (\<forall>k. pstep 3 (f k) (f (Suc k))))
    \<and> (\<forall>s. reach 3 1 1 spec_stream_3 s \<longrightarrow> \<not> (\<exists>t. pstep 3 s t)
         \<longrightarrow> terminal s \<and> s_cons s = diag_stream (unat (3::size_t)) spec_stream_3)"
    by (rule pipeline_terminates [OF h(1,2,2,3)])
  then show ?thesis using h sched_example_reach st by blast
qed

text \<open>
  C19: a short matrix never completes: when the producer supplies fewer than
  \<open>N(N+1)/2\<close> elements, no reachable state of the pipeline is final, whatever
  the capacities and the interleaving.
\<close>

theorem pipeline_short_input_never_final:
  assumes N: "unat num_rows \<le> 65535" and L: "length xs < tri (unat num_rows)"
    and R: "reach num_rows cin cout xs s"
  shows "\<not> terminal s"
proof
  assume T: "terminal s"
  obtain j where I: "pinv_at (unat num_rows) cin cout xs j s" using reach_pinv [OF N R] by blast
  with T have "j = tri (unat num_rows)" "j \<le> length xs" by (simp_all add: pinv_at_def terminal_def)
  with L show False by simp
qed

theorem pipeline_short_input_never_final_witness:
  "unat (3::size_t) \<le> 65535 \<and> length (take 4 spec_stream_3) < tri (unat (3::size_t))
   \<and> reach 3 1 1 (take 4 spec_stream_3) (psys_init 1 1 (take 4 spec_stream_3)) \<and> \<not> terminal (psys_init 1 1 (take 4 spec_stream_3))"
proof -
  have h: "unat (3::size_t) \<le> 65535" "length (take 4 spec_stream_3) < tri (unat (3::size_t))"
    by (simp_all add: spec_stream_3_def tri_def)
  show ?thesis using h reach.init pipeline_short_input_never_final [OF h reach.init] by blast
qed

text \<open>
  C20: a short matrix deadlocks the pipeline, after every element has been
  used: from every reachable state, a state is reachable in which no stage can
  move, the kernel waits in its \<open>read()\<close> of line 27 on an empty input pipe, the
  producer has nothing left, and the consumer has received the reciprocals of
  every diagonal element that was supplied.
\<close>

theorem pipeline_short_input_blocks:
  assumes N: "unat num_rows \<le> 65535" and ci: "1 \<le> cin" and co: "1 \<le> cout"
    and L: "length xs < tri (unat num_rows)" and R: "reach num_rows cin cout xs s"
  shows "\<exists>t. (pstep num_rows)\<^sup>*\<^sup>* s t \<and> \<not> (\<exists>u. pstep num_rows t u)
    \<and> s_pc t = AtRead \<and> pbuf (s_inp t) = [] \<and> s_prod t = []
    \<and> s_cons t = diag_stream (unat num_rows) xs"
proof -
  obtain t where t: "(pstep num_rows)\<^sup>*\<^sup>* s t" "reach num_rows cin cout xs t" "\<not> (\<exists>u. pstep num_rows t u)"
    using reach_to_stuck [OF N R] by blast
  obtain j where I: "pinv_at (unat num_rows) cin cout xs j t" using reach_pinv [OF N t(2)] by blast
  have "\<not> terminal t"
  proof
    assume "terminal t"
    with I have "j = tri (unat num_rows)" "j \<le> length xs" by (simp_all add: pinv_at_def terminal_def)
    with L show False by simp
  qed
  then have b: "s_pc t = AtRead \<and> pbuf (s_inp t) = [] \<and> s_prod t = [] \<and> pbuf (s_outp t) = [] \<and> j = length xs"
    using pinv_stuck [OF ci co I t(3)] by blast
  with I have "s_cons t = diag_stream (unat num_rows) xs" by (simp add: pinv_at_def)
  with t b show ?thesis by blast
qed

theorem pipeline_short_input_blocks_witness:
  "unat (3::size_t) \<le> 65535 \<and> (1::nat) \<le> 1 \<and> length (take 4 spec_stream_3) < tri (unat (3::size_t))
   \<and> reach 3 1 1 (take 4 spec_stream_3) (psys_init 1 1 (take 4 spec_stream_3))
   \<and> (\<exists>t. (pstep 3)\<^sup>*\<^sup>* (psys_init 1 1 (take 4 spec_stream_3)) t \<and> \<not> (\<exists>u. pstep 3 t u)
      \<and> s_pc t = AtRead \<and> pbuf (s_inp t) = [] \<and> s_prod t = []
      \<and> s_cons t = diag_stream (unat (3::size_t)) (take 4 spec_stream_3))"
proof -
  have h: "unat (3::size_t) \<le> 65535" "(1::nat) \<le> 1" "length (take 4 spec_stream_3) < tri (unat (3::size_t))"
    by (simp_all add: spec_stream_3_def tri_def)
  show ?thesis using h reach.init pipeline_short_input_blocks [OF h(1,2,2,3) reach.init] by blast
qed

text \<open>
  C21: surplus input stays in the pipeline: when the producer supplies more than
  one matrix, every final state has delivered exactly the reciprocals of the
  first matrix's diagonal, and the elements after the first \<open>N(N+1)/2\<close>, in
  order, are still in the input pipe or with the producer.
\<close>

theorem pipeline_surplus_input:
  assumes N: "unat num_rows \<le> 65535" and L: "tri (unat num_rows) \<le> length xs"
    and R: "reach num_rows cin cout xs s" and T: "terminal s"
  shows "s_cons s = diag_stream (unat num_rows) (take (tri (unat num_rows)) xs)
    \<and> pbuf (s_inp s) @ s_prod s = drop (tri (unat num_rows)) xs"
proof -
  obtain j where I: "pinv_at (unat num_rows) cin cout xs j s" using reach_pinv [OF N R] by blast
  show ?thesis using pinv_terminal [OF L I T] by (simp add: diag_stream_take_all)
qed

theorem pipeline_surplus_input_witness:
  "unat (3::size_t) \<le> 65535 \<and> tri (unat (3::size_t)) \<le> length (spec_stream_3 @ spec_stream_1)
   \<and> reach 3 1 1 (spec_stream_3 @ spec_stream_1) (run_sched 40 3 (psys_init 1 1 (spec_stream_3 @ spec_stream_1))) \<and> terminal (run_sched 40 3 (psys_init 1 1 (spec_stream_3 @ spec_stream_1)))
   \<and> s_cons (run_sched 40 3 (psys_init 1 1 (spec_stream_3 @ spec_stream_1))) = diag_stream (unat (3::size_t)) (take (tri (unat (3::size_t))) (spec_stream_3 @ spec_stream_1))
   \<and> pbuf (s_inp (run_sched 40 3 (psys_init 1 1 (spec_stream_3 @ spec_stream_1)))) @ s_prod (run_sched 40 3 (psys_init 1 1 (spec_stream_3 @ spec_stream_1))) = drop (tri (unat (3::size_t))) (spec_stream_3 @ spec_stream_1)"
proof -
  have h: "unat (3::size_t) \<le> 65535" "tri (unat (3::size_t)) \<le> length (spec_stream_3 @ spec_stream_1)"
    by (simp_all add: spec_stream_3_def spec_stream_1_def tri_def)
  have r: "reach 3 1 1 (spec_stream_3 @ spec_stream_1) (run_sched 40 3 (psys_init 1 1 (spec_stream_3 @ spec_stream_1)))" by (intro reach_run_sched reach.init)
  have t: "terminal (run_sched 40 3 (psys_init 1 1 (spec_stream_3 @ spec_stream_1)))" by code_simp
  show ?thesis using h r t pipeline_surplus_input [OF h r t] by blast
qed

text \<open>
  C26: backpressure.  A full output pipe stalls the kernel before it reads
  further: in every reachable state, the diagonal values of the elements the
  kernel has read so far number at most the values the consumer has taken plus
  the output capacity plus the one value pending in a blocked \<open>write()\<close>.
  The kernel can run ahead of the consumer by at most \<open>cout + 1\<close> outputs.
\<close>

theorem pipeline_backpressure:
  assumes N: "unat num_rows \<le> 65535" and R: "reach num_rows cin cout xs s"
  shows "length (diag_stream (unat num_rows) (take (length xs - length (pbuf (s_inp s)) - length (s_prod s)) xs))
    \<le> length (s_cons s) + cout + 1"
proof -
  obtain j where I: "pinv_at (unat num_rows) cin cout xs j s" using reach_pinv [OF N R] by blast
  have "length (pbuf (s_outp s)) \<le> cout" using I by (simp add: pinv_at_def pipe_ok_def)
  with pinv_produced [OF I] pinv_reads [OF I] show ?thesis by simp
qed

theorem pipeline_backpressure_witness:
  "unat (3::size_t) \<le> 65535 \<and> reach 3 1 1 spec_stream_3 (run_sched 10 3 (psys_init 1 1 spec_stream_3))
   \<and> length (diag_stream (unat (3::size_t)) (take (length spec_stream_3
         - length (pbuf (s_inp (run_sched 10 3 (psys_init 1 1 spec_stream_3))))
         - length (s_prod (run_sched 10 3 (psys_init 1 1 spec_stream_3)))) spec_stream_3))
     \<le> length (s_cons (run_sched 10 3 (psys_init 1 1 spec_stream_3))) + 1 + 1"
proof -
  have h: "unat (3::size_t) \<le> 65535" by simp
  show ?thesis using h sched_example_reach pipeline_backpressure [OF h sched_example_reach] by blast
qed

text \<open>
  C27: the pipeline also completes on surplus input: with pipes of capacity at
  least one and at least one matrix supplied, from every reachable state a final
  state is reachable, in which the consumer holds the first matrix's diagonal
  reciprocals and the surplus waits, in order, in the input pipe or with the
  producer.
\<close>

theorem pipeline_completes_surplus:
  assumes N: "unat num_rows \<le> 65535" and ci: "1 \<le> cin" and co: "1 \<le> cout"
    and L: "tri (unat num_rows) \<le> length xs" and R: "reach num_rows cin cout xs s"
  shows "\<exists>t. (pstep num_rows)\<^sup>*\<^sup>* s t \<and> terminal t
    \<and> s_cons t = diag_stream (unat num_rows) (take (tri (unat num_rows)) xs)
    \<and> pbuf (s_inp t) @ s_prod t = drop (tri (unat num_rows)) xs"
proof -
  obtain t where t: "(pstep num_rows)\<^sup>*\<^sup>* s t" "reach num_rows cin cout xs t" "terminal t"
    using reach_to_terminal [OF N ci co L R] by blast
  obtain j where I: "pinv_at (unat num_rows) cin cout xs j t" using reach_pinv [OF N t(2)] by blast
  have "pbuf (s_inp t) @ s_prod t = drop (tri (unat num_rows)) xs \<and> s_cons t = diag_stream (unat num_rows) xs"
    using pinv_terminal [OF L I t(3)] by simp
  with t show ?thesis by (auto simp: diag_stream_take_all)
qed

theorem pipeline_completes_surplus_witness:
  "unat (3::size_t) \<le> 65535 \<and> (1::nat) \<le> 1
   \<and> tri (unat (3::size_t)) \<le> length (spec_stream_3 @ spec_stream_1)
   \<and> reach 3 1 1 (spec_stream_3 @ spec_stream_1) (psys_init 1 1 (spec_stream_3 @ spec_stream_1))
   \<and> (\<exists>t. (pstep 3)\<^sup>*\<^sup>* (psys_init 1 1 (spec_stream_3 @ spec_stream_1)) t \<and> terminal t
      \<and> s_cons t = diag_stream (unat (3::size_t)) (take (tri (unat (3::size_t))) (spec_stream_3 @ spec_stream_1))
      \<and> pbuf (s_inp t) @ s_prod t = drop (tri (unat (3::size_t))) (spec_stream_3 @ spec_stream_1))"
proof -
  have h: "unat (3::size_t) \<le> 65535" "(1::nat) \<le> 1" "tri (unat (3::size_t)) \<le> length (spec_stream_3 @ spec_stream_1)"
    by (simp_all add: spec_stream_3_def spec_stream_1_def tri_def)
  show ?thesis using h reach.init pipeline_completes_surplus [OF h(1,2,2,3) reach.init] by blast
qed

end
