(* ===== verification/FloatModel.thy ===== *)
theory FloatModel
  imports DiagReciprocal
begin

text \<open>
  An instance of the kernel's element type at IEEE 754 values.  The kernel
  theorems hold for every type of class \<open>{one, inverse}\<close>; this theory
  supplies one that has the special values of IEEE 754 (signed zeros, signed
  infinities, NaN) and the sign rules of its division, so that what the kernel
  does with a zero diagonal can be stated.  Finite non-zero values are kept
  exact (\<open>FNum\<close> of a non-zero real), and the division of two finite values is
  the exact real quotient: binary32 rounding, overflow to infinity and subnormals
  are not modelled.  The theorem of this theory is about a zero divisor, whose
  IEEE 754 result (an infinity of the sign given by the operands) is exact, so
  it does not depend on that simplification.
\<close>

datatype float = FNum real | FZero bool | FInf bool | FNaN

definition fsign :: "float \<Rightarrow> bool" where
  "fsign x = (case x of FNum r \<Rightarrow> r < 0 | FZero s \<Rightarrow> s | FInf s \<Rightarrow> s | FNaN \<Rightarrow> False)"

definition fnum :: "real \<Rightarrow> float" where
  "fnum r = (if r = 0 then FZero False else FNum r)"

fun fdiv :: "float \<Rightarrow> float \<Rightarrow> float" where
  "fdiv FNaN y = FNaN"
| "fdiv x FNaN = FNaN"
| "fdiv (FInf a) (FInf b) = FNaN"
| "fdiv (FZero a) (FZero b) = FNaN"
| "fdiv (FInf a) y = FInf (a \<noteq> fsign y)"
| "fdiv x (FInf b) = FZero (fsign x \<noteq> b)"
| "fdiv x (FZero b) = FInf (fsign x \<noteq> b)"
| "fdiv (FZero a) y = FZero (a \<noteq> fsign y)"
| "fdiv (FNum a) (FNum b) = fnum (a / b)"

instantiation float :: "{one, inverse}"
begin

definition one_float_def: "1 = FNum 1"

definition divide_float_def: "x div y = fdiv x y"

definition inverse_float_def: "inverse x = fdiv 1 x"

instance ..

end

definition zero_stream_2 :: "float ComplexType list" where
  "zero_stream_2 = [\<lparr>c_real = FZero True, c_imag = FNum 1\<rparr>, \<lparr>c_real = FNum 3, c_imag = FNum 2\<rparr>,
     \<lparr>c_real = FZero False, c_imag = FZero False\<rparr>]"

lemma kernel_output_nth:
  assumes N: "unat num_rows \<le> 65535" and L: "tri (unat num_rows) \<le> length xs"
    and r: "1 \<le> r" "r \<le> unat num_rows"
  shows "\<exists>s. SubmitDiagReciprocalKernel num_rows xs = Finished s \<and> length (k_out s) = unat num_rows
    \<and> k_out s ! (r - 1) = 1 / c_real (xs ! diag_index (unat num_rows) r)"
proof -
  have "SubmitDiagReciprocalKernel num_rows xs = Finished (kernel_after (unat num_rows) xs (tri (unat num_rows)))"
    using N L by (simp add: kernel_run)
  moreover have "k_out (kernel_after (unat num_rows) xs (tri (unat num_rows)))
      = map (\<lambda>r. 1 / c_real (xs ! diag_index (unat num_rows) r)) [1..<Suc (unat num_rows)]"
    using L by (simp add: kernel_after_final diag_stream_closed_form del: upt_Suc)
  moreover have "[1..<Suc (unat num_rows)] ! (r - 1) = r"
    using r by (subst nth_upt) simp_all
  ultimately show ?thesis
    using r by (simp del: upt_Suc)
qed

lemma one_div_float:
  "(1::float) / x = (case x of FNaN \<Rightarrow> FNaN | FInf b \<Rightarrow> FZero b | FZero b \<Rightarrow> FInf b | FNum a \<Rightarrow> fnum (1 / a))"
  by (cases x) (simp_all add: one_float_def divide_float_def fsign_def)

subsection \<open>A zero on the diagonal\<close>

lemma one_div_zero: "(1::float) / FZero s = FInf s"
  by (simp add: one_div_float)

text \<open>
  C14: a diagonal element whose real part is a zero of either sign gives the
  infinity of that sign at its place in the output, and the kernel still
  finishes and writes all \<open>N\<close> values: the hazard is neither trapped nor
  corrected.
\<close>

theorem kernel_zero_diagonal:
  assumes N: "unat num_rows \<le> 65535" and L: "tri (unat num_rows) \<le> length xs"
    and r: "1 \<le> r" "r \<le> unat num_rows"
    and z: "c_real (xs ! diag_index (unat num_rows) r) = FZero neg"
  shows "\<exists>s. SubmitDiagReciprocalKernel num_rows xs = Finished s
    \<and> length (k_out s) = unat num_rows \<and> k_out s ! (r - 1) = FInf neg"
proof -
  obtain s where "SubmitDiagReciprocalKernel num_rows xs = Finished s" "length (k_out s) = unat num_rows"
    "k_out s ! (r - 1) = 1 / c_real (xs ! diag_index (unat num_rows) r)"
    using kernel_output_nth [OF N L r] by blast
  with z show ?thesis by (simp add: one_div_zero)
qed

theorem kernel_zero_diagonal_witness:
  "unat (2::size_t) \<le> 65535 \<and> tri (unat (2::size_t)) \<le> length zero_stream_2
   \<and> 1 \<le> (1::nat) \<and> 1 \<le> unat (2::size_t)
   \<and> c_real (zero_stream_2 ! diag_index (unat (2::size_t)) 1) = FZero True
   \<and> (\<exists>s. SubmitDiagReciprocalKernel 2 zero_stream_2 = Finished s
      \<and> length (k_out s) = unat (2::size_t) \<and> k_out s ! (1 - 1) = FInf True)"
proof -
  have h: "unat (2::size_t) \<le> 65535" "tri (unat (2::size_t)) \<le> length zero_stream_2"
    "1 \<le> (1::nat)" "1 \<le> unat (2::size_t)"
    "c_real (zero_stream_2 ! diag_index (unat (2::size_t)) 1) = FZero True"
    by (simp_all add: tri_def zero_stream_2_def diag_index_def)
  show ?thesis using h kernel_zero_diagonal [OF h] by blast
qed

end
