(* ===== verification/DataIndependence.thy ===== *)
theory DataIndependence
  imports DiagReciprocal
begin

text \<open>
  What the kernel of \<^verbatim>\<open>DiagReciprocal.hpp\<close> depends on.  Its control flow
  (the loop test of line 25, the diagonal test of line 29, the counter update of
  lines 33--38) reads only \<open>i\<close>, \<open>row\<close>, \<open>col\<close> and \<open>num_rows\<close>, never an
  element: \<open>same_shape\<close> relates two states that agree on the counters and on
  the number of elements read and written, and one iteration and the whole loop
  preserve it, for every \<open>num_rows\<close>, without the bound of the functional
  theorems.  The values written depend only on the real parts of the diagonal
  elements: the imaginary parts and the off-diagonal elements are never used.
\<close>

definition same_shape :: "'f kstate \<Rightarrow> 'g kstate \<Rightarrow> bool" where
  "same_shape s t = (k_i s = k_i t \<and> k_row s = k_row t \<and> k_col s = k_col t
     \<and> length (k_in s) = length (k_in t) \<and> length (k_out s) = length (k_out t))"

fun same_result :: "'f kresult \<Rightarrow> 'g kresult \<Rightarrow> bool" where
  "same_result (Finished s) (Finished t) = same_shape s t"
| "same_result (Blocked s) (Blocked t) = same_shape s t"
| "same_result _ _ = False"

definition spec_stream_3_diag :: "real ComplexType list" where
  "spec_stream_3_diag = [\<lparr>c_real = 2, c_imag = 7\<rparr>, \<lparr>c_real = 0, c_imag = 0\<rparr>,
     \<lparr>c_real = 0, c_imag = 0\<rparr>, \<lparr>c_real = 5, c_imag = 1\<rparr>,
     \<lparr>c_real = 0, c_imag = 0\<rparr>, \<lparr>c_real = 4, c_imag = 9\<rparr>]"

subsection \<open>The loop preserves the shape\<close>

lemma kernel_body_shape:
  assumes "same_shape s t"
  shows "(kernel_body n s = None) = (kernel_body n t = None)
    \<and> (\<forall>s' t'. kernel_body n s = Some s' \<longrightarrow> kernel_body n t = Some t' \<longrightarrow> same_shape s' t')"
  using assms
  by (auto simp: same_shape_def kernel_body_def Let_def advance_counters_def
      split: list.splits if_splits)

lemma kernel_loop_shape:
  "same_shape s t \<Longrightarrow> same_result (kernel_loop lmt n s) (kernel_loop lmt n t)"
proof (induction lmt n s arbitrary: t rule: kernel_loop.induct)
  case (1 lmt n s)
  have i: "k_i t = k_i s" using "1.prems" by (simp add: same_shape_def)
  show ?case
  proof (cases "k_i s <s lmt")
    case False
    with i "1.prems" show ?thesis by (simp add: kernel_loop.simps [of lmt n s] kernel_loop.simps [of lmt n t])
  next
    case lt: True
    show ?thesis
    proof (cases "kernel_body n s")
      case None
      with kernel_body_shape [OF "1.prems", of n] have "kernel_body n t = None" by simp
      with None lt i "1.prems" show ?thesis
        by (simp add: kernel_loop.simps [of lmt n s] kernel_loop.simps [of lmt n t])
    next
      case (Some s')
      with kernel_body_shape [OF "1.prems", of n] obtain t' where
        t': "kernel_body n t = Some t'" and sh: "same_shape s' t'" by fastforce
      have "same_result (kernel_loop lmt n s') (kernel_loop lmt n t')"
        using lt Some sh by (rule "1.IH")
      with Some t' lt i show ?thesis
        by (simp add: kernel_loop.simps [of lmt n s] kernel_loop.simps [of lmt n t])
    qed
  qed
qed

subsection \<open>Properties\<close>

text \<open>
  C22: the kernel's control flow is independent of the data: for every
  \<open>num_rows\<close> (also those whose count overflows) and any two pipe contents of
  the same length, the kernel ends the same way (finished, or blocked on the
  same read), with the same counters, the same number of elements read and the
  same number of values written.  No element value can stall or prolong it.
\<close>

theorem kernel_control_data_independent:
  assumes "length xs = length ys"
  shows "same_result (SubmitDiagReciprocalKernel num_rows xs) (SubmitDiagReciprocalKernel num_rows ys)"
proof -
  have "same_shape (kernel_init xs) (kernel_init ys)"
    using assms by (simp add: same_shape_def kernel_init_def)
  then show ?thesis by (simp add: SubmitDiagReciprocalKernel_def kernel_loop_shape)
qed

theorem kernel_control_data_independent_witness:
  "length spec_stream_3 = length (rev spec_stream_3)
   \<and> same_result (SubmitDiagReciprocalKernel 3 spec_stream_3) (SubmitDiagReciprocalKernel 3 (rev spec_stream_3))"
proof -
  have h: "length spec_stream_3 = length (rev spec_stream_3)" by simp
  show ?thesis using h kernel_control_data_independent [OF h] by blast
qed

text \<open>
  C23: only the real parts of the diagonal elements reach the output: two
  well-formed streams whose diagonal elements have the same real parts make the
  kernel write the same values, whatever their imaginary parts and their
  off-diagonal elements.
\<close>

theorem kernel_output_diagonal_only:
  assumes N: "unat num_rows \<le> 65535"
    and L: "tri (unat num_rows) \<le> length xs" "tri (unat num_rows) \<le> length ys"
    and D: "\<forall>r \<in> set [1..<Suc (unat num_rows)].
              c_real (ys ! diag_index (unat num_rows) r) = c_real (xs ! diag_index (unat num_rows) r)"
  shows "\<exists>s t. SubmitDiagReciprocalKernel num_rows xs = Finished s
    \<and> SubmitDiagReciprocalKernel num_rows ys = Finished t \<and> k_out t = k_out s"
proof -
  have "diag_stream (unat num_rows) ys = diag_stream (unat num_rows) xs"
    using L D by (simp add: diag_stream_closed_form del: upt_Suc)
  then show ?thesis using N L by (simp add: kernel_run kernel_after_final)
qed

theorem kernel_output_diagonal_only_witness:
  "unat (3::size_t) \<le> 65535 \<and> tri (unat (3::size_t)) \<le> length spec_stream_3
   \<and> tri (unat (3::size_t)) \<le> length spec_stream_3_diag
   \<and> (\<exists>s t. SubmitDiagReciprocalKernel 3 spec_stream_3 = Finished s
      \<and> SubmitDiagReciprocalKernel 3 spec_stream_3_diag = Finished t \<and> k_out t = k_out s)"
proof -
  have h: "unat (3::size_t) \<le> 65535" "tri (unat (3::size_t)) \<le> length spec_stream_3"
    "tri (unat (3::size_t)) \<le> length spec_stream_3_diag"
    by (simp_all add: tri_def spec_stream_3_def spec_stream_3_diag_def)
  have d: "\<forall>r \<in> set [1..<Suc (unat (3::size_t))].
        c_real (spec_stream_3_diag ! diag_index (unat (3::size_t)) r)
          = c_real (spec_stream_3 ! diag_index (unat (3::size_t)) r)"
    by (simp add: spec_stream_3_def spec_stream_3_diag_def diag_index_def tri_def upt_rec)
  show ?thesis using h d kernel_output_diagonal_only [OF h d] by blast
qed

end
