(* ===== verification/Frames.thy ===== *)
theory Frames
  imports DiagReciprocal
begin

text \<open>
  The kernel across frames.  \<open>SubmitDiagReciprocalKernel\<close> processes one
  matrix per submission; the surrounding pipeline re-invokes it once per input
  frame (specification, sections 1 and 3).  That orchestration is not among the
  sources; \<open>run_frames k\<close> models it from the specification as \<open>k\<close>
  submissions in sequence on the same input pipe, each starting where the
  previous one stopped reading, and failing (\<open>None\<close>) as soon as one blocks.
  The theorems show that frames compose: \<open>k\<close> well-formed frames give the \<open>k\<close>
  diagonal streams in order with the counters of each submission fresh, and the
  orchestration fails exactly when the pipe holds fewer than \<open>k\<close> frames' worth of
  elements.
\<close>

fun run_frames :: "nat \<Rightarrow> size_t \<Rightarrow> ('f::{one, inverse}) ComplexType list
    \<Rightarrow> ('f list list \<times> 'f ComplexType list) option" where
  "run_frames 0 num_rows xs = Some ([], xs)"
| "run_frames (Suc k) num_rows xs =
     (case SubmitDiagReciprocalKernel num_rows xs of
        Blocked s \<Rightarrow> None
      | Finished s \<Rightarrow> map_option (\<lambda>(outs, rest). (k_out s # outs, rest)) (run_frames k num_rows (k_in s)))"

lemma run_frames_Suc:
  assumes N: "unat num_rows \<le> 65535"
  shows "run_frames (Suc k) num_rows xs =
    (if tri (unat num_rows) \<le> length xs
     then map_option (\<lambda>(outs, rest). (diag_stream (unat num_rows) xs # outs, rest))
            (run_frames k num_rows (drop (tri (unat num_rows)) xs))
     else None)"
  using N by (simp add: kernel_run kernel_after_final)

subsection \<open>Properties\<close>

text \<open>
  C24: frames compose: submitting the kernel once per frame on a pipe holding
  \<open>k\<close> well-formed frames followed by anything else yields the \<open>k\<close> diagonal
  streams, each frame's from that frame alone, and leaves the rest of the pipe.
\<close>

theorem frames_compose:
  assumes N: "unat num_rows \<le> 65535" and F: "\<forall>f \<in> set fs. length f = tri (unat num_rows)"
  shows "run_frames (length fs) num_rows (concat fs @ rest) = Some (map (diag_stream (unat num_rows)) fs, rest)"
  using F
proof (induction fs)
  case Nil
  show ?case by simp
next
  case (Cons f fs)
  then have f: "length f = tri (unat num_rows)" and IH: "run_frames (length fs) num_rows (concat fs @ rest)
      = Some (map (diag_stream (unat num_rows)) fs, rest)" by simp_all
  have "concat (f # fs) @ rest = f @ (concat fs @ rest)" by simp
  then show ?case by (simp only: length_Cons run_frames.simps kernel_frame [OF N f] kresult.case) (simp add: IH)
qed

theorem frames_compose_witness:
  "unat (3::size_t) \<le> 65535 \<and> length spec_stream_3 = tri (unat (3::size_t))
   \<and> length (rev spec_stream_3) = tri (unat (3::size_t))
   \<and> run_frames (length [spec_stream_3, rev spec_stream_3]) 3 (concat [spec_stream_3, rev spec_stream_3] @ spec_stream_1)
       = Some (map (diag_stream (unat (3::size_t))) [spec_stream_3, rev spec_stream_3], spec_stream_1)"
proof -
  have h: "unat (3::size_t) \<le> 65535" "\<forall>f \<in> set [spec_stream_3, rev spec_stream_3]. length f = tri (unat (3::size_t))"
    by (simp_all add: spec_stream_3_def tri_def)
  have l: "length spec_stream_3 = tri (unat (3::size_t))" "length (rev spec_stream_3) = tri (unat (3::size_t))"
    by (simp_all add: spec_stream_3_def tri_def)
  show ?thesis using h(1) l frames_compose [OF h, of spec_stream_1] by blast
qed

text \<open>
  C25: the orchestration fails exactly on a short pipe: \<open>k\<close> submissions all
  finish if and only if the pipe holds at least \<open>k\<close> frames' worth of elements,
  \<open>k \<cdot> N(N+1)/2\<close>; otherwise one of them blocks in its \<open>read()\<close>.
\<close>

theorem frames_fail_iff_short:
  assumes N: "unat num_rows \<le> 65535"
  shows "(run_frames k num_rows xs = None) = (length xs < k * tri (unat num_rows))"
proof (induction k arbitrary: xs)
  case 0
  show ?case by simp
next
  case (Suc k)
  show ?case
  proof (cases "tri (unat num_rows) \<le> length xs")
    case True
    then show ?thesis using Suc.IH [of "drop (tri (unat num_rows)) xs"]
      by (simp del: run_frames.simps add: run_frames_Suc [OF N] less_diff_conv2 add.commute)
  next
    case False
    then show ?thesis by (simp del: run_frames.simps add: run_frames_Suc [OF N])
  qed
qed

theorem frames_fail_iff_short_witness:
  "unat (3::size_t) \<le> 65535
   \<and> (run_frames 2 3 (spec_stream_3 @ take 5 spec_stream_3) = None)
       = (length (spec_stream_3 @ take 5 spec_stream_3) < 2 * tri (unat (3::size_t)))
   \<and> run_frames 2 3 (spec_stream_3 @ take 5 spec_stream_3) = None"
proof -
  have h: "unat (3::size_t) \<le> 65535" by simp
  have e: "(run_frames 2 3 (spec_stream_3 @ take 5 spec_stream_3) = None)
       = (length (spec_stream_3 @ take 5 spec_stream_3) < 2 * tri (unat (3::size_t)))"
    by (rule frames_fail_iff_short [OF h])
  moreover have "length (spec_stream_3 @ take 5 spec_stream_3) < 2 * tri (unat (3::size_t))"
    by (simp add: spec_stream_3_def tri_def)
  ultimately show ?thesis using h by simp
qed

end
