(* ===== verification/Spec2Isabelle.thy ===== *)
theory Spec2Isabelle
  imports Pipeline FloatModel DataIndependence Frames
begin

text \<open>
  \<^bold>\<open>A verification development of the diagonal-reciprocal stage of the MVDR
  beamforming reference design.\<close>

  \<^emph>\<open>The program.\<close>  The repository's one source file,
  \<^verbatim>\<open>src/DirectProgramming/DPC++FPGA/ReferenceDesigns/mvdr_beamforming/src/DiagReciprocal.hpp\<close>,
  defines \<open>SubmitDiagReciprocalKernel\<close>: a single-task SYCL kernel that reads
  the packed upper-triangular factor \<open>R\<close> of a QR decomposition element by
  element from the pipe \<open>RMatrixInPipe\<close>, reconstructs each element's
  coordinates with two counters \<open>row\<close> and \<open>col\<close>, and writes
  \<open>1 / entry.real()\<close> to the pipe \<open>RDiagRecipVectorOutPipe\<close> whenever
  \<open>row == col\<close>.  It has three parts that interact: the loop of
  \<open>total_reads = num_rows * (num_rows + 1) / 2\<close> iterations (line 21, 25), the
  position tracker (lines 22--23, 33--38), and the two pipes that connect it to
  the QR producer and to the back-substitution consumer (lines 27, 30).

  \<^emph>\<open>The theories.\<close>
  \<^item> \<open>Prelude\<close>: the C++ integer types (\<open>int32\<close> for \<open>int\<close>, \<open>size_t\<close> for
    \<open>size_t\<close>), triangular numbers \<open>tri\<close>, and the shared facts on lists,
    iteration and words, the word facts collected as \<open>width_simps\<close>.
  \<^item> \<open>MvdrComplex\<close>: the element type \<open>ComplexType\<close> of the included header
    \<^verbatim>\<open>mvdr_complex.hpp\<close>, which is not among the sources and is modelled from
    the specification as a record of a real and an imaginary part of a
    floating-point type \<open>'f\<close>.  Every kernel theorem holds for every \<open>'f\<close> of
    class \<open>{one, inverse}\<close>, so nothing is assumed about the device's division.
  \<^item> \<open>TriIndex\<close>: the tracker, \<open>advance\<close> (lines 33--38) on naturals, its runs
    \<open>visit\<close>, and the abstract specification of the stream contract,
    \<open>tri_positions\<close> (row \<open>r\<close> holds columns \<open>r..n\<close>).  Its lemmas show that
    the tracker enumerates the packing (C8) and that the counters stay in range
    and never repeat (C9).
  \<^item> \<open>PackedIndex\<close>: the closed-form maps of the packing, \<open>packed_index\<close>
    (position to index) and \<open>packed_pos\<close> (index to position, a
    \<^theory_text>\<open>function\<close> that subtracts row lengths, terminating by the rows
    left).  They are a reference, not code: the kernel never computes either.
    Its lemmas show that the incremental tracker is equivalent to
    \<open>packed_pos\<close> (C15) and that index and position round-trip through the
    tracker in both directions (C16, C17).
  \<^item> \<open>DiagReciprocal\<close>: the kernel at the code's width.  The state of the
    lambda of lines 20--40 is the record \<open>kstate\<close> (\<open>i\<close>, \<open>row\<close>, \<open>col\<close>
    as \<open>int32\<close>, the unread contents of the input pipe, the values written to the
    output pipe); \<open>total_reads\<close> is line 21 with its \<open>size_t\<close> arithmetic and
    truncation to \<open>int\<close>; \<open>kernel_body\<close> is one iteration (lines 27--38, with
    the comparison \<open>col == num_rows\<close> done in \<open>size_t\<close>, as C++ converts it);
    \<open>kernel_loop\<close> is the \<open>for\<close> loop, a \<^theory_text>\<open>function\<close> that terminates by
    the signed distance \<open>total_reads - i\<close>; \<open>SubmitDiagReciprocalKernel\<close> starts
    it from \<open>i = 0, row = col = 1\<close>.  A read of an empty pipe blocks for ever;
    the loop then returns \<open>Blocked\<close> with the state at that read, and
    \<open>Finished\<close> when the loop condition fails.  \<open>counters_wf\<close> is the
    typing of the three counters (\<open>i\<close> a packed index, \<open>row\<close> and \<open>col\<close>
    its coordinates), which the initial state has and every iteration keeps (C18).
  \<^item> \<open>Pipes\<close>: the SYCL pipe, a library the source only calls, modelled from
    the specification as a bounded FIFO (\<open>pipe\<close>: buffer and capacity);
    \<open>pipe_read\<close> and \<open>pipe_write\<close> return \<open>None\<close> where the call would
    block.  \<open>pcap\<close> is the depth the implementation provides (SYCL's
    capacity parameter is a minimum); a depth-zero pipe is not modelled.  Its
    lemmas show the capacity bound and first-in first-out order.
  \<^item> \<open>Pipeline\<close>: the kernel running concurrently with the QR producer and
    the back-substitution consumer.  The loop is cut at its blocking points into
    a program counter \<open>kpc\<close> (test, read of line 27, write of line 30, the counter
    update \<open>advance_counters\<close> of lines 33--38, done); \<open>kernel_step\<close> is one
    such action, \<open>producer_step\<close> and \<open>consumer_step\<close> the other stages, the
    inductive \<open>pstep\<close> any of the three and \<open>reach\<close> the reachable states.
    The invariant \<open>pinv_at\<close> ties a state after \<open>j\<close> reads to the sequential
    simulation state, whatever the interleaving; \<open>pmeasure\<close> decreases on every
    step.  \<open>run_sched\<close> is one executable schedule (kernel first, then
    producer, then consumer), with fuel, used only to build the witnesses.
  \<^item> \<open>FloatModel\<close>: an instance of the element type with the special values
    of IEEE 754 (signed zeros and infinities, NaN) and the sign rules of its
    division; the quotient of two finite values is the exact real one, which
    binary32 is not.  It shows what the kernel does with a zero diagonal real
    part, a case whose IEEE result is exact (C14).
  \<^item> \<open>DataIndependence\<close>: \<open>same_shape\<close> relates kernel states that agree on
    everything but element values; every iteration and the loop preserve it,
    so the kernel's control flow never depends on the data (C22, for every
    \<open>num_rows\<close>), and only the real parts of the diagonal elements reach the
    output (C23).
  \<^item> \<open>Frames\<close>: the per-frame re-invocation by the surrounding pipeline,
    which is not among the sources and is modelled from the specification as
    \<open>run_frames\<close>, \<open>k\<close> submissions in sequence on one input pipe.  Frames
    compose, each submission starting again from \<open>row = col = 1\<close> (C24), and
    the orchestration fails exactly when the pipe holds fewer than \<open>k\<close>
    frames' worth of elements (C25).
  \<^item> This theory: this header.

  \<^emph>\<open>What is proved.\<close>  The specification of the output is \<open>diag_stream n xs\<close>:
  the reciprocals of the real parts of the elements that the packed order puts on
  the diagonal.  For \<open>num_rows \<le> 65535\<close> and a pipe with at least
  \<open>tri num_rows\<close> elements the kernel finishes in exactly the state that
  specification predicts (C1); the \<open>r\<close>-th output is the reciprocal of the
  element at packed index \<open>diag_index n r\<close> (C2, a refinement to a closed form);
  it reads \<open>tri n\<close> elements and writes \<open>n\<close> values (C3); \<open>total_reads\<close> is
  exact (C4).  For every \<open>num_rows\<close> the loop ends after exactly
  \<open>max 0 total_reads\<close> reads or blocks on an empty pipe (C6).  A short pipe
  blocks after consuming everything (C7).
  In the pipeline, for every interleaving and every capacity, the consumer only
  ever sees a prefix of the specified stream (C10); with capacities of at least
  one and one matrix supplied no reachable state deadlocks (C11), every final
  state agrees with the sequential kernel (C12), and every run is finite and
  ends in a final state with the whole output (C13).  When the producer
  supplies too little, no reachable state is final (C19) and every run ends in a
  deadlock with the kernel waiting in its \<open>read()\<close> after all the supplied
  diagonal values were delivered (C20); when it supplies more, final states keep
  the surplus in order (C21) and one is always reachable (C27).  Backpressure
  holds: the kernel runs ahead of the consumer by at most the output depth plus
  one pending write (C26).
  The proofs rest on a simulation: \<open>kernel_after n xs j\<close> is the state after
  \<open>j\<close> iterations, computed from the natural-number tracker, and
  \<open>kernel_body_step\<close> shows that one iteration of the code maps it to the next.

  \<^emph>\<open>Bounds.\<close>  The bound \<open>num_rows \<le> 65535\<close> is the largest for which
  \<open>tri num_rows < 2^31\<close>, so that \<open>total_reads\<close>, \<open>i\<close>, \<open>row\<close> and \<open>col\<close>
  hold their mathematical values.  It is not an artefact of the proof: at 65536
  the count overflows the \<open>int\<close>, becomes negative, and the kernel returns
  without reading or writing anything (C5).  The loop needs no fuel: \<open>kernel_loop\<close> is total.

  \<^emph>\<open>Not modelled.\<close>  Every line of \<^verbatim>\<open>DiagReciprocal.hpp\<close> that has a
  meaning is translated: lines 13--44 (the kernel, \<open>SubmitDiagReciprocalKernel\<close>
  and its pieces); lines 1--12 and 45--47 are include guards, includes and
  comments.  What remains outside is outside the sources.  The SYCL runtime
  (\<open>queue::submit\<close>, \<open>single_task\<close>, the returned \<open>event\<close>) is scheduling,
  not function; theory \<open>Pipeline\<close> covers every order of the three stages'
  actions instead, and of the orchestration only the repeated submission
  (\<open>run_frames\<close>) is modelled, from the specification.  The sequential
  kernel (\<open>kernel_loop\<close>) sees the input pipe as the sequence the producer
  delivers; the pipeline model adds the capacities and the blocking writes.  The
  fuel of \<open>run_sched\<close> only bounds the example runs; the theorems about the
  pipeline quantify over all runs of \<open>pstep\<close> and use no fuel.
  \<open>ComplexType\<close> (in \<^verbatim>\<open>mvdr_complex.hpp\<close>, not among the sources) is
  modelled only as far as the kernel uses it, its two parts; its arithmetic is
  unused here.  Floating-point division is a type-class parameter, instantiated
  once with IEEE 754's special values and sign rules; rounding, overflow and
  subnormals of binary32 are not modelled, so no theorem states the value of a
  finite reciprocal in binary32.  The
  QR stage and the back-substitution stage are separate kernels of the design
  that are not in this repository's sources; they appear only as the producer
  and the consumer of the pipeline model.
\<close>

end
